theory Spec2Isabelle
  imports Main "HOL-Library.Char_ord" "HOL-Library.List_Lexorder"
begin

section \<open>Values, exceptions and string primitives\<close>

text \<open>
  The module \<^verbatim>\<open>crawler/upload/helper.py\<close> works on Python strings, lists and
  dictionaries.  Strings are character lists; a dictionary is an association list in
  insertion order (Python dictionaries keep insertion order, and \<^verbatim>\<open>transform\<close>
  sorts one); the values that the functions build or pass through are the JSON-like
  values of \<open>pyval\<close>.
\<close>

datatype pyval =
    PNone
  | PStr string
  | PInt int
  | PList "pyval list"
  | PDict "(string \<times> pyval) list"

text \<open>The exceptions that the code paths of the module raise, under their Python names.\<close>

datatype exn =
    RuntimeError
  | KeyError
  | ParseError
  | AssertionError
  | AttributeError
  | UnboundLocalError
  | RequestException

text \<open>
  \<^verbatim>\<open>s.rsplit(sep, maxsplit)\<close> for a one-character separator: the string is cut at the
  last \<open>maxsplit\<close> occurrences of the separator, scanning from the right.
  \<open>rpartition\<close> cuts at the last occurrence, when there is one.
\<close>

definition rpartition :: "char \<Rightarrow> string \<Rightarrow> (string \<times> string) option" where
  "rpartition sep s =
     (if sep \<in> set s
      then Some (rev (tl (dropWhile (\<lambda>c. c \<noteq> sep) (rev s))),
                 rev (takeWhile (\<lambda>c. c \<noteq> sep) (rev s)))
      else None)"

fun rsplit :: "char \<Rightarrow> nat \<Rightarrow> string \<Rightarrow> string list" where
  "rsplit sep 0 s = [s]"
| "rsplit sep (Suc n) s =
     (case rpartition sep s of
        None \<Rightarrow> [s]
      | Some (front, back) \<Rightarrow> rsplit sep n front @ [back])"

text \<open>
  \<^verbatim>\<open>s.isupper()\<close>: no lowercase character and at least one uppercase one;
  characters without case, such as digits and spaces, do not count.  A character is a
  code point below 256, and its case is the one that Python gives this code point: the
  uppercase ones are the letters A to Z and the code points C0 to D6 and D8 to DE, the
  lowercase ones the letters a to z, the code points AA, B5 and BA, DF to F6 and F8 to
  FF; below 256 there is no titlecase character.
\<close>

definition is_upper_char :: "char \<Rightarrow> bool" where
  "is_upper_char c =
     ((CHR ''A'' \<le> c \<and> c \<le> CHR ''Z'') \<or> (CHR 0xC0 \<le> c \<and> c \<le> CHR 0xD6)
      \<or> (CHR 0xD8 \<le> c \<and> c \<le> CHR 0xDE))"

definition is_lower_char :: "char \<Rightarrow> bool" where
  "is_lower_char c =
     ((CHR ''a'' \<le> c \<and> c \<le> CHR ''z'') \<or> c = CHR 0xAA \<or> c = CHR 0xB5 \<or> c = CHR 0xBA
      \<or> (CHR 0xDF \<le> c \<and> c \<le> CHR 0xF6) \<or> (CHR 0xF8 \<le> c \<and> c \<le> CHR 0xFF))"

definition isupper :: "string \<Rightarrow> bool" where
  "isupper s = (list_ex is_upper_char s \<and> \<not> list_ex is_lower_char s)"

text \<open>\<^verbatim>\<open>s[:-3]\<close>: the string without its last three characters.\<close>

definition drop_last3 :: "string \<Rightarrow> string" where
  "drop_last3 s = take (length s - 3) s"

text \<open>\<^verbatim>\<open>needle in haystack\<close> on strings.\<close>

fun contains :: "string \<Rightarrow> string \<Rightarrow> bool" where
  "contains needle [] = (needle = [])"
| "contains needle (c # cs) =
     (take (length needle) (c # cs) = needle \<or> contains needle cs)"

section \<open>The HTML funding extractor\<close>

text \<open>
  The loop of \<^verbatim>\<open>pmid_to_funding\<close> over the grant strings keeps three local
  variables: \<^verbatim>\<open>organization\<close>, \<^verbatim>\<open>identifier\<close> and the list
  \<^verbatim>\<open>funding\<close>.  The first two are assigned only inside the branches of the loop
  body, so each is either unbound (\<open>None\<close>) or bound to a value; the value of
  \<^verbatim>\<open>identifier\<close> is itself a string or Python's \<^verbatim>\<open>None\<close>.
\<close>

record funding_state =
  organization_var :: "string option"
  identifier_var :: "string option option"
  funding_var :: "pyval list"

definition init_state :: funding_state where
  "init_state = \<lparr>organization_var = None, identifier_var = None, funding_var = []\<rparr>"

text \<open>Lines 72 to 90: the assignments that one grant string makes.\<close>

definition assign_grant :: "string \<Rightarrow> funding_state \<Rightarrow> funding_state" where
  "assign_grant grant st =
     (let segments = butlast (rsplit CHR ''/'' 2 grant) in
      if length segments = 1 then
        st\<lparr>organization_var := Some (last segments), identifier_var := Some None\<rparr>
      else if length segments = 2 then
        (let subsegments = rsplit CHR ''/'' 1 (segments ! 0);
             c_1 = (length subsegments = 2);
             c_2 = (length (last subsegments) = 2);
             c_3 = isupper (last subsegments)
         in st\<lparr>organization_var := Some (last segments),
                identifier_var := Some (Some (if c_1 \<and> c_2 \<and> c_3
                                          then drop_last3 (segments ! 0)
                                          else segments ! 0))\<rparr>)
      else st)"

text \<open>
  Lines 92 to 99: the entry built from the two variables.  The \<^verbatim>\<open>identifier\<close>
  key is set when the value is truthy: a string that is not empty.
\<close>

definition truthy :: "string option \<Rightarrow> bool" where
  "truthy v = (case v of None \<Rightarrow> False | Some s \<Rightarrow> s \<noteq> [])"

definition funding_entry :: "string \<Rightarrow> string option \<Rightarrow> pyval" where
  "funding_entry org ident =
     PDict ([(''funder'', PDict [(''@type'', PStr ''Organization''), (''name'', PStr org)])]
            @ (if truthy ident
               then (case ident of None \<Rightarrow> [] | Some s \<Rightarrow> [(''identifier'', PStr s)])
               else []))"

text \<open>
  One iteration of the loop.  Reading an unbound local variable raises
  \<^verbatim>\<open>UnboundLocalError\<close>.
\<close>

definition grant_step :: "string \<Rightarrow> funding_state \<Rightarrow> exn + funding_state" where
  "grant_step grant st =
     (let st' = assign_grant grant st in
      case organization_var st' of
        None \<Rightarrow> Inl UnboundLocalError
      | Some org \<Rightarrow>
          (case identifier_var st' of
             None \<Rightarrow> Inl UnboundLocalError
           | Some ident \<Rightarrow> Inr (st'\<lparr>funding_var := funding_var st' @ [funding_entry org ident]\<rparr>)))"

fun grant_loop :: "string list \<Rightarrow> funding_state \<Rightarrow> exn + funding_state" where
  "grant_loop [] st = Inr st"
| "grant_loop (grant # grants) st =
     (case grant_step grant st of
        Inl e \<Rightarrow> Inl e
      | Inr st' \<Rightarrow> grant_loop grants st')"

text \<open>
  The page and its query are the work of the HTTP client and of the selector library.
  A selected heading is known by its markup (\<^verbatim>\<open>section.get()\<close>) and by the link
  texts of the list that follows it (the second XPath query).  Lines 46 to 49: every
  heading whose markup contains the words replaces the grant list.
\<close>

record heading =
  markup :: string
  link_texts :: "string list"

fun select_grants :: "heading list \<Rightarrow> string list \<Rightarrow> string list" where
  "select_grants [] grants = grants"
| "select_grants (s # ss) grants =
     select_grants ss (if contains ''Grant support'' (markup s) then link_texts s else grants)"

definition funding_of_sections :: "heading list \<Rightarrow> exn + pyval list" where
  "funding_of_sections sections =
     (case grant_loop (select_grants sections []) init_state of
        Inl e \<Rightarrow> Inl e
      | Inr st \<Rightarrow> Inr (funding_var st))"

definition pmid_to_funding ::
  "(string \<Rightarrow> exn + string) \<Rightarrow> (string \<Rightarrow> heading list) \<Rightarrow> string \<Rightarrow> exn + pyval list" where
  "pmid_to_funding http_get xpath_h4 pmid =
     (case http_get (''https://www.ncbi.nlm.nih.gov/pubmed/'' @ pmid) of
        Inl e \<Rightarrow> Inl e
      | Inr body \<Rightarrow> funding_of_sections (xpath_h4 body))"

section \<open>The mapper\<close>

text \<open>
  A value of the mapping table is a Python object: a data value or a callable.  A
  callable is handed the source value; it returns the dictionary that
  \<^verbatim>\<open>_doc.update\<close> merges, or raises.
\<close>

datatype mapped =
    Value pyval
  | Callable "pyval \<Rightarrow> exn + (string \<times> pyval) list"

text \<open>
  \<^verbatim>\<open>d[k] = v\<close> on an insertion-ordered dictionary: a key that is present keeps
  its place and takes the new value, a new key goes to the end.
  \<^verbatim>\<open>d.update(other)\<close> stores the items of the other dictionary one by one.
\<close>

fun setitem :: "(string \<times> pyval) list \<Rightarrow> string \<Rightarrow> pyval \<Rightarrow> (string \<times> pyval) list" where
  "setitem [] k v = [(k, v)]"
| "setitem ((k', v') # d) k v = (if k' = k then (k, v) # d else (k', v') # setitem d k v)"

fun dict_update :: "(string \<times> pyval) list \<Rightarrow> (string \<times> pyval) list \<Rightarrow> (string \<times> pyval) list" where
  "dict_update d [] = d"
| "dict_update d ((k, v) # other) = dict_update (setitem d k v) other"

definition start_doc :: "(string \<times> pyval) list" where
  "start_doc = [(''@context'', PStr ''http://schema.org/''), (''@type'', PStr ''Dataset'')]"

text \<open>Lines 16 to 22: what one item of the record does to \<^verbatim>\<open>_doc\<close>.\<close>

definition transform_item ::
  "(string \<rightharpoonup> mapped) \<Rightarrow> string \<times> pyval \<Rightarrow> (string \<times> pyval) list \<Rightarrow> exn + (string \<times> pyval) list" where
  "transform_item mappings item doc' =
     (case mappings (fst item) of
        None \<Rightarrow> Inr doc'
      | Some (Value (PStr name)) \<Rightarrow> Inr (setitem doc' name (snd item))
      | Some (Value _) \<Rightarrow> Inl RuntimeError
      | Some (Callable f) \<Rightarrow>
          (case f (snd item) of
             Inl e \<Rightarrow> Inl e
           | Inr other \<Rightarrow> Inr (dict_update doc' other)))"

fun transform_loop ::
  "(string \<times> pyval) list \<Rightarrow> (string \<rightharpoonup> mapped) \<Rightarrow> (string \<times> pyval) list \<Rightarrow> exn + (string \<times> pyval) list" where
  "transform_loop [] mappings doc' = Inr doc'"
| "transform_loop (item # items) mappings doc' =
     (case transform_item mappings item doc' of
        Inl e \<Rightarrow> Inl e
      | Inr doc'' \<Rightarrow> transform_loop items mappings doc'')"

text \<open>
  Line 24 sorts the items.  The keys of a dictionary differ pairwise, so the order of
  two items is the order of their keys, the lexicographic order of strings.
\<close>

definition transform ::
  "(string \<times> pyval) list \<Rightarrow> (string \<rightharpoonup> mapped) \<Rightarrow> exn + (string \<times> pyval) list" where
  "transform doc mappings =
     (case transform_loop doc mappings start_doc of
        Inl e \<Rightarrow> Inl e
      | Inr doc' \<Rightarrow> Inr (sort_key fst doc'))"

text \<open>
  The vocabulary for the statements about the mapper.  \<open>isinstance_str\<close> is the test
  of line 17.  \<open>item_keys\<close> are the keys that one item of the record writes into
  \<^verbatim>\<open>_doc\<close>: none for a key the table does not have, the mapped name for a
  string entry, the keys of the returned dictionary for a callable entry.
  \<open>item_writes\<close> are the stores that the item makes, key and value, in the order
  in which lines 18 and 20 make them.
  \<open>renamed\<close> lists what the string entries of the table write, in the order of the
  record; \<open>renames\<close> says that the table maps the key of the item to a string or
  not at all; \<open>entry_succeeds\<close> says that lines 16 to 22 do not raise on the item.
\<close>

definition item_writes ::
  "(string \<rightharpoonup> mapped) \<Rightarrow> string \<times> pyval \<Rightarrow> (string \<times> pyval) list" where
  "item_writes mappings item =
     (case mappings (fst item) of
        None \<Rightarrow> []
      | Some (Value (PStr name)) \<Rightarrow> [(name, snd item)]
      | Some (Value _) \<Rightarrow> []
      | Some (Callable f) \<Rightarrow>
          (case f (snd item) of Inl e \<Rightarrow> [] | Inr other \<Rightarrow> other))"

definition isinstance_str :: "pyval \<Rightarrow> bool" where
  "isinstance_str v = (case v of PStr _ \<Rightarrow> True | _ \<Rightarrow> False)"

definition item_keys :: "(string \<rightharpoonup> mapped) \<Rightarrow> string \<times> pyval \<Rightarrow> string set" where
  "item_keys mappings item =
     (case mappings (fst item) of
        None \<Rightarrow> {}
      | Some (Value (PStr name)) \<Rightarrow> {name}
      | Some (Value _) \<Rightarrow> {}
      | Some (Callable f) \<Rightarrow>
          (case f (snd item) of Inl e \<Rightarrow> {} | Inr other \<Rightarrow> fst ` set other))"

fun renamed :: "(string \<rightharpoonup> mapped) \<Rightarrow> (string \<times> pyval) list \<Rightarrow> (string \<times> pyval) list" where
  "renamed mappings [] = []"
| "renamed mappings (item # items) =
     (case mappings (fst item) of
        Some (Value (PStr name)) \<Rightarrow> (name, snd item) # renamed mappings items
      | _ \<Rightarrow> renamed mappings items)"

definition renames :: "(string \<rightharpoonup> mapped) \<Rightarrow> string \<times> pyval \<Rightarrow> bool" where
  "renames mappings item =
     (case mappings (fst item) of
        None \<Rightarrow> True
      | Some (Value v) \<Rightarrow> isinstance_str v
      | Some (Callable f) \<Rightarrow> False)"

definition entry_succeeds :: "(string \<rightharpoonup> mapped) \<Rightarrow> string \<times> pyval \<Rightarrow> bool" where
  "entry_succeeds mappings item =
     (case mappings (fst item) of
        None \<Rightarrow> True
      | Some (Value v) \<Rightarrow> isinstance_str v
      | Some (Callable f) \<Rightarrow> (case f (snd item) of Inl e \<Rightarrow> False | Inr other \<Rightarrow> True))"

section \<open>The XML extractor\<close>

text \<open>
  An element of the parsed tree, as \<^verbatim>\<open>xml.etree.ElementTree\<close> gives it: a tag,
  a text that may be \<^verbatim>\<open>None\<close>, and the child elements in document order.
\<close>

datatype element =
  Element (tag: string) (text_of: "string option") (children: "element list")

text \<open>
  \<^verbatim>\<open>e.iter()\<close> walks the element and everything below it in document order;
  the path \<^verbatim>\<open>.//T\<close> keeps the elements with tag \<open>T\<close> strictly below the
  start; \<^verbatim>\<open>e.find(T)\<close> is the first child with tag \<open>T\<close>, if any.
\<close>

fun iter :: "element \<Rightarrow> element list" where
  "iter (Element t x cs) = Element t x cs # concat (map iter cs)"

definition findall_desc :: "string \<Rightarrow> element \<Rightarrow> element list" where
  "findall_desc t e = filter (\<lambda>d. tag d = t) (concat (map iter (children e)))"

definition child_elems :: "string \<Rightarrow> element \<Rightarrow> element list" where
  "child_elems t e = filter (\<lambda>c. tag c = t) (children e)"

definition find :: "string \<Rightarrow> element \<Rightarrow> element option" where
  "find t e = (case child_elems t e of [] \<Rightarrow> None | c # _ \<Rightarrow> Some c)"

text \<open>
  A path \<^verbatim>\<open>.//D/C1/C2\<close>: the descendants with tag \<open>D\<close>, then one child step
  per further tag; \<^verbatim>\<open>root.find(path)\<close> is the first element reached.
\<close>

fun child_steps :: "string list \<Rightarrow> element list \<Rightarrow> element list" where
  "child_steps [] es = es"
| "child_steps (t # ts) es = child_steps ts (concat (map (child_elems t) es))"

definition find_path :: "string \<Rightarrow> string list \<Rightarrow> element \<Rightarrow> element option" where
  "find_path d ts root =
     (case child_steps ts (findall_desc d root) of [] \<Rightarrow> None | e # _ \<Rightarrow> Some e)"

text \<open>A text put into a format string or stored as a value: \<^verbatim>\<open>None\<close> prints as its name.\<close>

definition format_text :: "string option \<Rightarrow> string" where
  "format_text x = (case x of None \<Rightarrow> ''None'' | Some s \<Rightarrow> s)"

definition text_value :: "string option \<Rightarrow> pyval" where
  "text_value x = (case x of None \<Rightarrow> PNone | Some s \<Rightarrow> PStr s)"

text \<open>Lines 129 to 143: the funding field.\<close>

definition grant_dict :: "element \<Rightarrow> (string \<times> pyval) list" where
  "grant_dict grant_element =
     (case find ''Agency'' grant_element of
        None \<Rightarrow> []
      | Some agency \<Rightarrow>
          [(''funder'', PDict [(''@type'', PStr ''Organization''),
                               (''name'', text_value (text_of agency))])])
     @ (case find ''GrantID'' grant_element of
          None \<Rightarrow> []
        | Some grant_id \<Rightarrow> [(''identifier'', text_value (text_of grant_id))])"

fun grants_loop :: "element list \<Rightarrow> pyval list \<Rightarrow> pyval list" where
  "grants_loop [] grants = grants"
| "grants_loop (grant_element # rest) grants =
     grants_loop rest
       (if grant_dict grant_element \<noteq> [] then grants @ [PDict (grant_dict grant_element)]
        else grants)"

text \<open>
  Lines 150 to 154: the author names.  \<^verbatim>\<open>author.find(T).text\<close> reads an
  attribute of the result of \<^verbatim>\<open>find\<close>; on \<^verbatim>\<open>None\<close> that raises
  \<^verbatim>\<open>AttributeError\<close>.
\<close>

definition author_name :: "element \<Rightarrow> exn + string" where
  "author_name author =
     (case find ''LastName'' author of
        None \<Rightarrow> Inl AttributeError
      | Some l \<Rightarrow>
          (case find ''Initials'' author of
             None \<Rightarrow> Inl AttributeError
           | Some i \<Rightarrow> Inr (format_text (text_of l) @ '' '' @ format_text (text_of i))))"

fun authors_loop :: "element list \<Rightarrow> string list \<Rightarrow> exn + string list" where
  "authors_loop [] authors = Inr authors"
| "authors_loop (author # rest) authors =
     (case author_name author of
        Inl e \<Rightarrow> Inl e
      | Inr name \<Rightarrow> authors_loop rest (authors @ [name]))"

text \<open>\<^verbatim>\<open>sep.join(xs)\<close>.\<close>

fun join :: "string \<Rightarrow> string list \<Rightarrow> string" where
  "join sep [] = []"
| "join sep [x] = x"
| "join sep (x # y # ys) = x @ sep @ join sep (y # ys)"

text \<open>Lines 156 to 168: the author string, in the order of the tests of the source.\<close>

definition author_string :: "string list \<Rightarrow> string" where
  "author_string authors =
     (if length authors > 4 then join '', '' (take 4 authors) @ '' et al. ''
      else if length authors > 1 then join '', '' authors @ ''. ''
      else if length authors = 1 then authors ! 0 @ ''. ''
      else [])"

text \<open>
  Lines 172 to 185: the remaining string.  A feature is a path and a template; the
  template is the text before and the text after the placeholder.
\<close>

definition features :: "((string \<times> string list) \<times> string \<times> string) list" where
  "features =
     [((''MedlineCitation'', [''Article'', ''ArticleTitle'']), [], '' ''),
      ((''MedlineCitation'', [''MedlineJournalInfo'', ''MedlineTA'']), [], '' ''),
      ((''MedlineCitation'', [''Article'', ''Journal'', ''JournalIssue'', ''PubDate'', ''Year'']),
         [], '' ''),
      ((''MedlineCitation'', [''Article'', ''Journal'', ''JournalIssue'', ''PubDate'', ''Month'']),
         [], '';''),
      ((''MedlineCitation'', [''Article'', ''Journal'', ''JournalIssue'', ''Volume'']), [], []),
      ((''MedlineCitation'', [''Article'', ''Journal'', ''JournalIssue'', ''Issue'']), ''('', '')''),
      ((''MedlineCitation'', [''Article'', ''Pagination'', ''MedlinePgn'']), '':'', [])]"

fun features_loop :: "((string \<times> string list) \<times> string \<times> string) list \<Rightarrow> element \<Rightarrow> string \<Rightarrow> string" where
  "features_loop [] root citation = citation"
| "features_loop (((d, ts), (before_text, after_text)) # rest) root citation =
     features_loop rest root
       (case find_path d ts root of
          None \<Rightarrow> citation
        | Some e \<Rightarrow> citation @ before_text @ format_text (text_of e) @ after_text)"

text \<open>
  Lines 125 to 187, from the parsed root on.  \<^verbatim>\<open>assert root\<close> tests the truth
  value of the element, which is that of its list of children.
\<close>

definition extract_root :: "element \<Rightarrow> exn + (pyval list \<times> string)" where
  "extract_root root =
     (if children root = [] then Inl AssertionError
      else
        (let grants = grants_loop (findall_desc ''Grant'' root) [] in
         case authors_loop (findall_desc ''Author'' root) [] of
           Inl e \<Rightarrow> Inl e
         | Inr authors \<Rightarrow>
             Inr (grants, features_loop features root ([] @ author_string authors))))"

text \<open>
  Lines 121 to 123.  The environment, the HTTP client and the XML parser are the
  collaborators of the function: a missing \<^verbatim>\<open>API_KEY\<close> raises
  \<^verbatim>\<open>KeyError\<close>, and \<^verbatim>\<open>ET.fromstring\<close> gives the root element or raises
  \<^verbatim>\<open>ParseError\<close>.
\<close>

definition eutils_url :: "string \<Rightarrow> string \<Rightarrow> string" where
  "eutils_url pmid api_key =
     ''https://eutils.ncbi.nlm.nih.gov/entrez/eutils/efetch.fcgi?db=pubmed&id='' @ pmid
     @ ''&retmode=xml&api_key='' @ api_key"

definition pmid_with_eutils ::
  "(string \<rightharpoonup> string) \<Rightarrow> (string \<Rightarrow> exn + string) \<Rightarrow> (string \<Rightarrow> element option) \<Rightarrow> string
     \<Rightarrow> exn + (pyval list \<times> string)" where
  "pmid_with_eutils environ http_get fromstring pmid =
     (case environ ''API_KEY'' of
        None \<Rightarrow> Inl KeyError
      | Some api_key \<Rightarrow>
          (case http_get (eutils_url pmid api_key) of
             Inl e \<Rightarrow> Inl e
           | Inr body \<Rightarrow>
               (case fromstring body of
                  None \<Rightarrow> Inl ParseError
                | Some root \<Rightarrow> extract_root root)))"

section \<open>Stand-ins for the collaborators\<close>

text \<open>
  Concrete environments, responses and parse results, for running the extractors on
  given pages and documents.
\<close>

definition environ_with_key :: "string \<rightharpoonup> string" where
  "environ_with_key = [''API_KEY'' \<mapsto> ''0123456789abcdef'']"

definition respond_with :: "string \<Rightarrow> string \<Rightarrow> exn + string" where
  "respond_with body url = Inr body"

definition parse_as :: "element \<Rightarrow> string \<Rightarrow> element option" where
  "parse_as root body = Some root"

definition parse_fails :: "string \<Rightarrow> element option" where
  "parse_fails body = None"

definition headings_are :: "heading list \<Rightarrow> string \<Rightarrow> heading list" where
  "headings_are hs body = hs"

text \<open>A callable entry of a mapping table: it files the value under two names.\<close>

definition as_description :: "pyval \<Rightarrow> exn + (string \<times> pyval) list" where
  "as_description v = Inr [(''description'', v), (''abstract'', v)]"

text \<open>
  Documents of the shape that the XML endpoint returns: an article with a title, a list
  of authors and a list of grants.
\<close>

definition author_elem :: "string \<Rightarrow> string \<Rightarrow> element" where
  "author_elem lastname initials =
     Element ''Author'' None
       [Element ''LastName'' (Some lastname) [], Element ''Initials'' (Some initials) []]"

definition article_doc :: "element list \<Rightarrow> element list \<Rightarrow> element" where
  "article_doc authors grants =
     Element ''PubmedArticleSet'' None
       [Element ''PubmedArticle'' None
          [Element ''MedlineCitation'' None
             [Element ''Article'' None
                [Element ''ArticleTitle'' (Some ''A trial.'') [],
                 Element ''AuthorList'' None authors,
                 Element ''GrantList'' None grants]]]]"

section \<open>Properties of the HTML funding extractor\<close>

lemma rpartition_absent: "sep \<notin> set s \<Longrightarrow> rpartition sep s = None"
  by (simp add: rpartition_def)

lemma rsplit_absent: "sep \<notin> set s \<Longrightarrow> rsplit sep n s = [s]"
  by (cases n) (simp_all add: rpartition_absent)

lemma assign_grant_absent: "CHR ''/'' \<notin> set grant \<Longrightarrow> assign_grant grant st = st"
  by (simp add: assign_grant_def rsplit_absent)

lemma assign_grant_funding: "funding_var (assign_grant grant st) = funding_var st"
  by (simp add: assign_grant_def Let_def)

lemma grant_step_bound:
  "organization_var st = Some org \<Longrightarrow> identifier_var st = Some ident \<Longrightarrow>
   CHR ''/'' \<notin> set grant \<Longrightarrow>
   grant_step grant st = Inr (st\<lparr>funding_var := funding_var st @ [funding_entry org ident]\<rparr>)"
  by (simp add: grant_step_def assign_grant_absent)

lemma grant_step_Inr:
  assumes "grant_step grant st = Inr st'"
  shows "\<exists>org ident. organization_var st' = Some org \<and> identifier_var st' = Some ident
           \<and> funding_var st' = funding_var st @ [funding_entry org ident]"
  using assms by (auto simp: grant_step_def Let_def assign_grant_funding split: option.splits)

lemma rpartition_parts:
  assumes "rpartition sep s = Some (a, b)"
  shows "s = a @ sep # b"
proof -
  let ?P = "\<lambda>c. c \<noteq> sep"
  from assms have mem: "sep \<in> set s"
    and a: "a = rev (tl (dropWhile ?P (rev s)))"
    and b: "b = rev (takeWhile ?P (rev s))"
    by (auto simp: rpartition_def split: if_splits)
  from mem have ne: "dropWhile ?P (rev s) \<noteq> []"
    by (simp add: dropWhile_eq_Nil_conv)
  from hd_dropWhile [OF ne] have "hd (dropWhile ?P (rev s)) = sep"
    by simp
  with ne have d: "dropWhile ?P (rev s) = sep # tl (dropWhile ?P (rev s))"
    by (cases "dropWhile ?P (rev s)") simp_all
  have "rev s = takeWhile ?P (rev s) @ dropWhile ?P (rev s)"
    by simp
  then have "rev s = takeWhile ?P (rev s) @ sep # tl (dropWhile ?P (rev s))"
    using d by simp
  then have "rev (rev s) = rev (takeWhile ?P (rev s) @ sep # tl (dropWhile ?P (rev s)))"
    by (rule arg_cong)
  then show ?thesis
    by (simp add: a b)
qed

lemma rsplit_one_parts:
  assumes "rsplit sep 1 s = [a, b]"
  shows "s = a @ sep # b"
proof (cases "rpartition sep s")
  case None
  with assms show ?thesis by simp
next
  case (Some p)
  obtain x y where p: "p = (x, y)" by (cases p)
  with Some assms have "x = a" "y = b" by simp_all
  with Some p rpartition_parts [of sep s a b] show ?thesis by simp
qed

text \<open>
  When the split of the first segment gives two parts and the last has two characters,
  the first segment without its last three characters is the part before the last
  slash: what is stripped is the slash and the two characters.
\<close>

lemma strip_is_first_part:
  assumes "rsplit CHR ''/'' 1 first = [a, b] \<and> length b = 2"
  shows "first = a @ CHR ''/'' # b \<and> take (length first - 3) first = a"
proof -
  from assms have r: "rsplit CHR ''/'' 1 first = [a, b]" and l: "length b = 2"
    by simp_all
  from rsplit_one_parts [OF r] have f: "first = a @ CHR ''/'' # b" .
  have "take (length first - 3) first = a"
    unfolding f using l by simp
  with f show ?thesis by simp
qed

text \<open>
  Lines 79 to 90 for any grant string that leaves two segments: the second is the
  organization; the identifier is the first without its last three characters when the
  split of the first at its last slash gives two parts and the last part has two
  characters, one of them at least an uppercase character and none a lowercase one,
  and the whole first segment otherwise.
\<close>

lemma assign_grant_rule:
  assumes "butlast (rsplit CHR ''/'' 2 grant) = [first, org]"
  shows "assign_grant grant st =
     st\<lparr>organization_var := Some org,
        identifier_var := Some (Some
          (if length (rsplit CHR ''/'' 1 first) = 2
              \<and> length (last (rsplit CHR ''/'' 1 first)) = 2
              \<and> list_ex is_upper_char (last (rsplit CHR ''/'' 1 first))
              \<and> \<not> list_ex is_lower_char (last (rsplit CHR ''/'' 1 first))
           then take (length first - 3) first else first))\<rparr>"
  using assms by (simp add: assign_grant_def Let_def isupper_def drop_last3_def del: rsplit.simps)

lemma rsplit_example:
  "rsplit CHR ''/'' 2 ''M01 RR000051-475611 /RR /NCRR NIH HHS /United States''
     = [''M01 RR000051-475611 /RR '', ''NCRR NIH HHS '', ''United States'']"
  by code_simp

lemma grant_string_run:
  "assign_grant ''M01 RR000051-475611 /RR /NCRR NIH HHS /United States'' st
      = st\<lparr>organization_var := Some ''NCRR NIH HHS '',
            identifier_var := Some (Some ''M01 RR000051-475611 /RR '')\<rparr>"
proof -
  have b: "rsplit CHR ''/'' (Suc 0) ''M01 RR000051-475611 /RR ''
                = [''M01 RR000051-475611 '', ''RR '']"
    by code_simp
  show ?thesis
    unfolding assign_grant_def by (simp add: rsplit_example b Let_def del: rsplit.simps)
qed

text \<open>
  C1, as stated: the last three characters of the first segment are stripped only if
  the last part of its split is entirely uppercase.  The test of line 85 asks less: a
  last part of two characters with one uppercase letter and a digit passes it.  In
  \<^verbatim>\<open>HHSN266200400029C/A1/NIAID NIH HHS/United States\<close> the last part
  \<^verbatim>\<open>A1\<close> is not entirely uppercase, and the three characters are stripped.
\<close>

theorem entirely_uppercase_counterexample:
  "butlast (rsplit CHR ''/'' 2 ''HHSN266200400029C/A1/NIAID NIH HHS/United States'')
      = [''HHSN266200400029C/A1'', ''NIAID NIH HHS'']
   \<and> rsplit CHR ''/'' 1 ''HHSN266200400029C/A1'' = [''HHSN266200400029C'', ''A1'']
   \<and> length ''A1'' = 2
   \<and> \<not> list_all is_upper_char ''A1''
   \<and> identifier_var (assign_grant ''HHSN266200400029C/A1/NIAID NIH HHS/United States'' init_state)
      = Some (Some ''HHSN266200400029C'')"
  by code_simp

text \<open>
  C1, amended.  For every grant string that leaves two segments, the organization is
  the second segment and the identifier follows the rule: the first segment is split
  at its last slash, and its last three characters are stripped if and only if the
  split gives two parts and the last part has exactly two characters, among them at
  least one uppercase character and no lowercase character; otherwise the identifier
  is the whole first segment.  What is stripped is then the slash and the two
  characters.  For the grant string
  \<^verbatim>\<open>M01 RR000051-475611 /RR /NCRR NIH HHS /United States\<close> the organization is
  \<^verbatim>\<open>"NCRR NIH HHS "\<close>, and the identifier is the whole first segment
  \<^verbatim>\<open>"M01 RR000051-475611 /RR "\<close>, because the last part \<^verbatim>\<open>"RR "\<close> has
  three characters.  The further grant strings show the rule on both sides: an
  uppercase suffix of two letters is stripped, a lowercase one, one of two digits and
  one of a single character are not.
\<close>

theorem grant_identifier_rule:
  "(\<forall>grant first org st. butlast (rsplit CHR ''/'' 2 grant) = [first, org] \<longrightarrow>
      assign_grant grant st =
        st\<lparr>organization_var := Some org,
           identifier_var := Some (Some
             (if length (rsplit CHR ''/'' 1 first) = 2
                 \<and> length (last (rsplit CHR ''/'' 1 first)) = 2
                 \<and> list_ex is_upper_char (last (rsplit CHR ''/'' 1 first))
                 \<and> \<not> list_ex is_lower_char (last (rsplit CHR ''/'' 1 first))
              then take (length first - 3) first else first))\<rparr>)
   \<and> (\<forall>first a b. rsplit CHR ''/'' 1 first = [a, b] \<and> length b = 2 \<longrightarrow>
         first = a @ CHR ''/'' # b \<and> take (length first - 3) first = a)
   \<and> butlast (rsplit CHR ''/'' 2 ''M01 RR000051-475611 /RR /NCRR NIH HHS /United States'')
      = [''M01 RR000051-475611 /RR '', ''NCRR NIH HHS '']
   \<and> rsplit CHR ''/'' 1 ''M01 RR000051-475611 /RR '' = [''M01 RR000051-475611 '', ''RR '']
   \<and> assign_grant ''M01 RR000051-475611 /RR /NCRR NIH HHS /United States'' st
      = st\<lparr>organization_var := Some ''NCRR NIH HHS '',
            identifier_var := Some (Some ''M01 RR000051-475611 /RR '')\<rparr>
   \<and> funding_of_sections
       [\<lparr>markup = ''<h4>Grant support</h4>'',
         link_texts = [''M01 RR000051-475611 /RR /NCRR NIH HHS /United States'']\<rparr>]
      = Inr [PDict [(''funder'', PDict [(''@type'', PStr ''Organization''),
                                        (''name'', PStr ''NCRR NIH HHS '')]),
                    (''identifier'', PStr ''M01 RR000051-475611 /RR '')]]
   \<and> identifier_var (assign_grant ''R01 DK090554/DK/NIDDK NIH HHS/United States'' init_state)
      = Some (Some ''R01 DK090554'')
   \<and> identifier_var (assign_grant ''R01 DK090554/dk/NIDDK NIH HHS/United States'' init_state)
      = Some (Some ''R01 DK090554/dk'')
   \<and> identifier_var
        (assign_grant ''MC_UU_12010/10/Medical Research Council/United Kingdom'' init_state)
      = Some (Some ''MC_UU_12010/10'')
   \<and> identifier_var
        (assign_grant ''MR/M00919X/1/Medical Research Council/United Kingdom'' init_state)
      = Some (Some ''MR/M00919X/1'')"
proof -
  have a: "\<forall>grant first org st. butlast (rsplit CHR ''/'' 2 grant) = [first, org] \<longrightarrow>
      assign_grant grant st =
        st\<lparr>organization_var := Some org,
           identifier_var := Some (Some
             (if length (rsplit CHR ''/'' 1 first) = 2
                 \<and> length (last (rsplit CHR ''/'' 1 first)) = 2
                 \<and> list_ex is_upper_char (last (rsplit CHR ''/'' 1 first))
                 \<and> \<not> list_ex is_lower_char (last (rsplit CHR ''/'' 1 first))
              then take (length first - 3) first else first))\<rparr>"
    using assign_grant_rule by blast
  have b: "\<forall>first a b. rsplit CHR ''/'' 1 first = [a, b] \<and> length b = 2 \<longrightarrow>
         first = a @ CHR ''/'' # b \<and> take (length first - 3) first = a"
    using strip_is_first_part by blast
  have c: "butlast (rsplit CHR ''/'' 2 ''M01 RR000051-475611 /RR /NCRR NIH HHS /United States'')
      = [''M01 RR000051-475611 /RR '', ''NCRR NIH HHS '']"
    by (simp add: rsplit_example)
  have d: "rsplit CHR ''/'' 1 ''M01 RR000051-475611 /RR '' = [''M01 RR000051-475611 '', ''RR '']"
    by code_simp
  have e: "funding_of_sections
       [\<lparr>markup = ''<h4>Grant support</h4>'',
         link_texts = [''M01 RR000051-475611 /RR /NCRR NIH HHS /United States'']\<rparr>]
      = Inr [PDict [(''funder'', PDict [(''@type'', PStr ''Organization''),
                                        (''name'', PStr ''NCRR NIH HHS '')]),
                    (''identifier'', PStr ''M01 RR000051-475611 /RR '')]]"
    by code_simp
  have f: "identifier_var (assign_grant ''R01 DK090554/DK/NIDDK NIH HHS/United States'' init_state)
      = Some (Some ''R01 DK090554'')"
    by code_simp
  have g: "identifier_var (assign_grant ''R01 DK090554/dk/NIDDK NIH HHS/United States'' init_state)
      = Some (Some ''R01 DK090554/dk'')"
    by code_simp
  have h: "identifier_var
        (assign_grant ''MC_UU_12010/10/Medical Research Council/United Kingdom'' init_state)
      = Some (Some ''MC_UU_12010/10'')"
    by code_simp
  have i: "identifier_var
        (assign_grant ''MR/M00919X/1/Medical Research Council/United Kingdom'' init_state)
      = Some (Some ''MR/M00919X/1'')"
    by code_simp
  from a b c d grant_string_run [of st] e f g h i show ?thesis
    by (intro conjI)
qed

theorem grant_identifier_rule_witness:
  "butlast (rsplit CHR ''/'' 2 ''R01 DK090554/DK/NIDDK NIH HHS/United States'')
      = [''R01 DK090554/DK'', ''NIDDK NIH HHS'']
   \<and> rsplit CHR ''/'' 1 ''R01 DK090554/DK'' = [''R01 DK090554'', ''DK'']
   \<and> length ''DK'' = 2
   \<and> list_ex is_upper_char ''DK''
   \<and> \<not> list_ex is_lower_char ''DK''
   \<and> assign_grant ''R01 DK090554/DK/NIDDK NIH HHS/United States'' init_state
      = init_state\<lparr>organization_var := Some ''NIDDK NIH HHS'',
                    identifier_var := Some (Some ''R01 DK090554'')\<rparr>
   \<and> ''R01 DK090554/DK'' = ''R01 DK090554'' @ CHR ''/'' # ''DK''
   \<and> take (length ''R01 DK090554/DK'' - 3) ''R01 DK090554/DK'' = ''R01 DK090554''"
proof -
  have seg: "butlast (rsplit CHR ''/'' 2 ''R01 DK090554/DK/NIDDK NIH HHS/United States'')
      = [''R01 DK090554/DK'', ''NIDDK NIH HHS'']"
    by code_simp
  have resplit: "rsplit CHR ''/'' 1 ''R01 DK090554/DK'' = [''R01 DK090554'', ''DK'']"
    by code_simp
  have len: "length ''DK'' = 2"
    by simp
  have up: "list_ex is_upper_char ''DK''"
    by code_simp
  have lo: "\<not> list_ex is_lower_char ''DK''"
    by code_simp
  have cond: "length (rsplit CHR ''/'' 1 ''R01 DK090554/DK'') = 2
      \<and> length (last (rsplit CHR ''/'' 1 ''R01 DK090554/DK'')) = 2
      \<and> list_ex is_upper_char (last (rsplit CHR ''/'' 1 ''R01 DK090554/DK''))
      \<and> \<not> list_ex is_lower_char (last (rsplit CHR ''/'' 1 ''R01 DK090554/DK''))"
    unfolding resplit using up lo by simp
  note parts = grant_identifier_rule [THEN conjunct2, THEN conjunct1, rule_format,
      OF conjI [OF resplit len]]
  note run = grant_identifier_rule [THEN conjunct1, rule_format, OF seg, of init_state,
      unfolded if_P [OF cond] parts [THEN conjunct2]]
  from seg resplit len up lo run parts [THEN conjunct1] parts [THEN conjunct2] show ?thesis
    by (intro conjI)
qed

text \<open>
  C9.  A grant string without any slash: the split gives the string alone, and after
  the removal of the last segment nothing remains, so neither branch assigns the two
  variables.  When it is the first grant string the function fails with
  \<^verbatim>\<open>UnboundLocalError\<close>; after a grant string that was processed the variables
  still hold its values, and the entry appended is a copy of the previous entry.  So
  the function does not return a result for every list of grant strings.
\<close>

theorem grant_without_slash:
  assumes "CHR ''/'' \<notin> set grant"
  shows "butlast (rsplit CHR ''/'' 2 grant) = []
     \<and> assign_grant grant st = st
     \<and> grant_loop (grant # grants) init_state = Inl UnboundLocalError
     \<and> funding_of_sections [\<lparr>markup = ''<h4>Grant support</h4>'', link_texts = grant # grants\<rparr>]
          = Inl UnboundLocalError
     \<and> (\<forall>previous st0 st1. grant_step previous st0 = Inr st1 \<longrightarrow>
          grant_step grant st1
            = Inr (st1\<lparr>funding_var := funding_var st1 @ [last (funding_var st1)]\<rparr>))"
proof -
  have a: "butlast (rsplit CHR ''/'' 2 grant) = []"
    using assms by (simp add: rsplit_absent)
  have b: "assign_grant grant st = st"
    using assms by (rule assign_grant_absent)
  have s: "grant_step grant init_state = Inl UnboundLocalError"
    using assms by (simp add: grant_step_def assign_grant_absent init_state_def)
  have c: "grant_loop (grant # grants) init_state = Inl UnboundLocalError"
    by (simp add: s)
  have sel: "select_grants [\<lparr>markup = ''<h4>Grant support</h4>'', link_texts = grant # grants\<rparr>] []
               = grant # grants"
    by code_simp
  have d: "funding_of_sections [\<lparr>markup = ''<h4>Grant support</h4>'', link_texts = grant # grants\<rparr>]
          = Inl UnboundLocalError"
    unfolding funding_of_sections_def sel by (simp add: s)
  have e: "grant_step grant st1
            = Inr (st1\<lparr>funding_var := funding_var st1 @ [last (funding_var st1)]\<rparr>)"
    if "grant_step previous st0 = Inr st1" for previous st0 st1
  proof -
    from grant_step_Inr [OF that] obtain org ident where
      "organization_var st1 = Some org" "identifier_var st1 = Some ident"
      "funding_var st1 = funding_var st0 @ [funding_entry org ident]" by blast
    then show ?thesis using grant_step_bound [OF _ _ assms, of st1 org ident] by simp
  qed
  from a b c d e show ?thesis by blast
qed

theorem grant_without_slash_witness:
  "CHR ''/'' \<notin> set ''Wellcome Trust''
   \<and> grant_loop [''Wellcome Trust''] init_state = Inl UnboundLocalError
   \<and> grant_step ''G0901149/Medical Research Council/United Kingdom'' init_state
       = Inr \<lparr>organization_var = Some ''Medical Research Council'',
              identifier_var = Some (Some ''G0901149''),
              funding_var = [funding_entry ''Medical Research Council'' (Some ''G0901149'')]\<rparr>
   \<and> grant_step ''Wellcome Trust''
         \<lparr>organization_var = Some ''Medical Research Council'',
          identifier_var = Some (Some ''G0901149''),
          funding_var = [funding_entry ''Medical Research Council'' (Some ''G0901149'')]\<rparr>
       = Inr \<lparr>organization_var = Some ''Medical Research Council'',
              identifier_var = Some (Some ''G0901149''),
              funding_var = [funding_entry ''Medical Research Council'' (Some ''G0901149''),
                             funding_entry ''Medical Research Council'' (Some ''G0901149'')]\<rparr>"
proof -
  have h: "CHR ''/'' \<notin> set ''Wellcome Trust''"
    by simp
  have p: "grant_step ''G0901149/Medical Research Council/United Kingdom'' init_state
       = Inr \<lparr>organization_var = Some ''Medical Research Council'',
              identifier_var = Some (Some ''G0901149''),
              funding_var = [funding_entry ''Medical Research Council'' (Some ''G0901149'')]\<rparr>"
    by code_simp
  from grant_without_slash [OF h, of init_state "[]"] p h show ?thesis
    by auto
qed

lemma funding_entry_cases:
  "funding_entry org ident =
     (case ident of
        None \<Rightarrow> PDict [(''funder'', PDict [(''@type'', PStr ''Organization''), (''name'', PStr org)])]
      | Some s \<Rightarrow>
          if s = [] then PDict [(''funder'', PDict [(''@type'', PStr ''Organization''), (''name'', PStr org)])]
          else PDict [(''funder'', PDict [(''@type'', PStr ''Organization''), (''name'', PStr org)]),
                      (''identifier'', PStr s)])"
  by (simp add: funding_entry_def truthy_def split: option.splits)

lemma funding_entry_identifier:
  assumes "PDict kvs = funding_entry org ident" "(''identifier'', v) \<in> set kvs"
  shows "\<exists>s. v = PStr s \<and> s \<noteq> [] \<and> ident = Some s"
  using assms by (auto simp: funding_entry_cases split: option.splits if_splits)

lemma grant_loop_entries:
  "grant_loop grants st = Inr st' \<Longrightarrow> e \<in> set (funding_var st') \<Longrightarrow>
   e \<in> set (funding_var st) \<or> (\<exists>org ident. e = funding_entry org ident)"
proof (induction grants arbitrary: st)
  case Nil
  then show ?case by simp
next
  case (Cons g gs)
  from Cons.prems(1) obtain st1 where s: "grant_step g st = Inr st1" and l: "grant_loop gs st1 = Inr st'"
    by (auto split: sum.splits)
  from Cons.IH [OF l Cons.prems(2)] grant_step_Inr [OF s] show ?case by auto
qed

lemma funding_of_sections_entries:
  assumes "funding_of_sections sections = Inr out" "e \<in> set out"
  shows "\<exists>org ident. e = funding_entry org ident"
proof -
  from assms(1) obtain st' where l: "grant_loop (select_grants sections []) init_state = Inr st'"
    and o: "out = funding_var st'"
    by (auto simp: funding_of_sections_def split: sum.splits)
  from grant_loop_entries [OF l] assms(2) o show ?thesis by (auto simp: init_state_def)
qed

lemma pmid_to_funding_entries:
  assumes "pmid_to_funding http_get xpath_h4 pmid = Inr out" "e \<in> set out"
  shows "\<exists>org ident. e = funding_entry org ident"
  using assms funding_of_sections_entries
  by (auto simp: pmid_to_funding_def split: sum.splits)

text \<open>
  C10.  The \<^verbatim>\<open>identifier\<close> key is set only when the value of the variable is
  truthy.  An identifier that is the empty string gives the same entry as
  \<^verbatim>\<open>None\<close>, the entry with the funder alone; a non-empty identifier is stored
  under the key.  Every step of the loop appends the entry of the current values of the
  two variables, so in the result of \<^verbatim>\<open>pmid_to_funding\<close> an
  \<^verbatim>\<open>identifier\<close> key always maps to a string that is not empty.
\<close>

theorem identifier_only_when_truthy:
  "funding_entry org (Some []) = funding_entry org None
   \<and> funding_entry org None
       = PDict [(''funder'', PDict [(''@type'', PStr ''Organization''), (''name'', PStr org)])]
   \<and> (\<forall>s. s \<noteq> [] \<longrightarrow> funding_entry org (Some s)
       = PDict [(''funder'', PDict [(''@type'', PStr ''Organization''), (''name'', PStr org)]),
                (''identifier'', PStr s)])
   \<and> (\<forall>grant st st'. grant_step grant st = Inr st' \<longrightarrow>
        (\<exists>org' ident. organization_var st' = Some org' \<and> identifier_var st' = Some ident
            \<and> funding_var st' = funding_var st @ [funding_entry org' ident]))
   \<and> (\<forall>out kvs v. pmid_to_funding http_get xpath_h4 pmid = Inr out \<longrightarrow> PDict kvs \<in> set out \<longrightarrow>
          (''identifier'', v) \<in> set kvs \<longrightarrow> (\<exists>s. v = PStr s \<and> s \<noteq> []))"
proof -
  have a: "funding_entry org (Some []) = funding_entry org None"
    by (simp add: funding_entry_cases)
  have b: "funding_entry org None
       = PDict [(''funder'', PDict [(''@type'', PStr ''Organization''), (''name'', PStr org)])]"
    by (simp add: funding_entry_cases)
  have c: "\<forall>s. s \<noteq> [] \<longrightarrow> funding_entry org (Some s)
       = PDict [(''funder'', PDict [(''@type'', PStr ''Organization''), (''name'', PStr org)]),
                (''identifier'', PStr s)]"
    by (simp add: funding_entry_cases)
  have d: "\<forall>grant st st'. grant_step grant st = Inr st' \<longrightarrow>
        (\<exists>org' ident. organization_var st' = Some org' \<and> identifier_var st' = Some ident
            \<and> funding_var st' = funding_var st @ [funding_entry org' ident])"
    using grant_step_Inr by blast
  have e: "\<exists>s. v = PStr s \<and> s \<noteq> []"
    if "pmid_to_funding http_get xpath_h4 pmid = Inr out" "PDict kvs \<in> set out"
       "(''identifier'', v) \<in> set kvs" for out kvs v
  proof -
    from pmid_to_funding_entries [OF that(1,2)] obtain org' ident
      where "PDict kvs = funding_entry org' ident" by blast
    from funding_entry_identifier [OF this that(3)] show ?thesis by blast
  qed
  from a b c d e show ?thesis by blast
qed

theorem identifier_only_when_truthy_witness:
  "grant_step ''/RR/NCRR NIH HHS/United States'' init_state
     = Inr \<lparr>organization_var = Some ''NCRR NIH HHS'', identifier_var = Some (Some []),
            funding_var = [PDict [(''funder'', PDict [(''@type'', PStr ''Organization''),
                                                      (''name'', PStr ''NCRR NIH HHS'')])]]\<rparr>
   \<and> pmid_to_funding (respond_with ''<html></html>'')
        (headings_are [\<lparr>markup = ''<h4>Grant support</h4>'',
           link_texts = [''/RR/NCRR NIH HHS/United States'',
                         ''R01 DK090554/DK/NIDDK NIH HHS/United States'']\<rparr>]) ''28864822''
     = Inr [PDict [(''funder'', PDict [(''@type'', PStr ''Organization''),
                                       (''name'', PStr ''NCRR NIH HHS'')])],
            PDict [(''funder'', PDict [(''@type'', PStr ''Organization''),
                                       (''name'', PStr ''NIDDK NIH HHS'')]),
                   (''identifier'', PStr ''R01 DK090554'')]]
   \<and> ''R01 DK090554'' \<noteq> []
   \<and> funding_entry ''NIDDK NIH HHS'' (Some ''R01 DK090554'')
     = PDict [(''funder'', PDict [(''@type'', PStr ''Organization''),
                                  (''name'', PStr ''NIDDK NIH HHS'')]),
              (''identifier'', PStr ''R01 DK090554'')]
   \<and> (\<exists>s. PStr ''R01 DK090554'' = PStr s \<and> s \<noteq> [])"
proof -
  have step: "grant_step ''/RR/NCRR NIH HHS/United States'' init_state
     = Inr \<lparr>organization_var = Some ''NCRR NIH HHS'', identifier_var = Some (Some []),
            funding_var = [PDict [(''funder'', PDict [(''@type'', PStr ''Organization''),
                                                      (''name'', PStr ''NCRR NIH HHS'')])]]\<rparr>"
    by code_simp
  have run: "pmid_to_funding (respond_with ''<html></html>'')
        (headings_are [\<lparr>markup = ''<h4>Grant support</h4>'',
           link_texts = [''/RR/NCRR NIH HHS/United States'',
                         ''R01 DK090554/DK/NIDDK NIH HHS/United States'']\<rparr>]) ''28864822''
     = Inr [PDict [(''funder'', PDict [(''@type'', PStr ''Organization''),
                                       (''name'', PStr ''NCRR NIH HHS'')])],
            PDict [(''funder'', PDict [(''@type'', PStr ''Organization''),
                                       (''name'', PStr ''NIDDK NIH HHS'')]),
                   (''identifier'', PStr ''R01 DK090554'')]]"
    by code_simp
  have ne: "''R01 DK090554'' \<noteq> []"
    by simp
  note t = identifier_only_when_truthy
    [of "''NIDDK NIH HHS''" "respond_with ''<html></html>''"
        "headings_are [\<lparr>markup = ''<h4>Grant support</h4>'',
           link_texts = [''/RR/NCRR NIH HHS/United States'',
                         ''R01 DK090554/DK/NIDDK NIH HHS/United States'']\<rparr>]" "''28864822''"]
  from t ne have entry: "funding_entry ''NIDDK NIH HHS'' (Some ''R01 DK090554'')
     = PDict [(''funder'', PDict [(''@type'', PStr ''Organization''),
                                  (''name'', PStr ''NIDDK NIH HHS'')]),
              (''identifier'', PStr ''R01 DK090554'')]"
    by blast
  from t run have ex: "\<exists>s. PStr ''R01 DK090554'' = PStr s \<and> s \<noteq> []"
    by (elim conjE allE [where x = "PStr ''R01 DK090554''"]) auto
  from step run ne entry ex show ?thesis by blast
qed

section \<open>Properties of the mapper\<close>

lemma setitem_keys: "fst ` set (setitem d k v) = insert k (fst ` set d)"
  by (induction d k v rule: setitem.induct) auto

lemma setitem_distinct: "distinct (map fst d) \<Longrightarrow> distinct (map fst (setitem d k v))"
  by (induction d k v rule: setitem.induct) (auto simp: setitem_keys)

lemma setitem_new: "k \<notin> fst ` set d \<Longrightarrow> setitem d k v = d @ [(k, v)]"
  by (induction d k v rule: setitem.induct) auto

lemma dict_update_keys: "fst ` set (dict_update d other) = fst ` set d \<union> fst ` set other"
  by (induction d other rule: dict_update.induct) (auto simp: setitem_keys)

lemma dict_update_distinct: "distinct (map fst d) \<Longrightarrow> distinct (map fst (dict_update d other))"
  by (induction d other rule: dict_update.induct) (auto simp: setitem_distinct)

lemma transform_item_keys:
  "transform_item mappings item d = Inr d' \<Longrightarrow>
   fst ` set d' = fst ` set d \<union> item_keys mappings item"
  unfolding transform_item_def item_keys_def
  by (simp split: option.splits mapped.splits pyval.splits sum.splits)
     (metis setitem_keys, metis dict_update_keys)

lemma transform_item_distinct:
  "transform_item mappings item d = Inr d' \<Longrightarrow> distinct (map fst d) \<Longrightarrow> distinct (map fst d')"
  by (auto simp: transform_item_def setitem_distinct dict_update_distinct
      split: option.splits mapped.splits pyval.splits sum.splits)

lemma transform_loop_keys:
  "transform_loop doc mappings d = Inr d' \<Longrightarrow>
   fst ` set d' = fst ` set d \<union> (\<Union>item\<in>set doc. item_keys mappings item)"
proof (induction doc arbitrary: d)
  case Nil
  then show ?case by simp
next
  case (Cons item items)
  from Cons.prems obtain d1 where i: "transform_item mappings item d = Inr d1"
    and l: "transform_loop items mappings d1 = Inr d'"
    by (auto split: sum.splits)
  from Cons.IH [OF l] transform_item_keys [OF i] show ?case by auto
qed

lemma transform_loop_distinct:
  "transform_loop doc mappings d = Inr d' \<Longrightarrow> distinct (map fst d) \<Longrightarrow> distinct (map fst d')"
proof (induction doc arbitrary: d)
  case Nil
  then show ?case by simp
next
  case (Cons item items)
  from Cons.prems(1) obtain d1 where i: "transform_item mappings item d = Inr d1"
    and l: "transform_loop items mappings d1 = Inr d'"
    by (auto split: sum.splits)
  from Cons.IH [OF l transform_item_distinct [OF i Cons.prems(2)]] show ?case .
qed

lemma transform_loop_append:
  "transform_loop (xs @ ys) mappings d =
     (case transform_loop xs mappings d of
        Inl e \<Rightarrow> Inl e
      | Inr d' \<Rightarrow> transform_loop ys mappings d')"
  by (induction xs arbitrary: d) (auto split: sum.splits)

lemma start_doc_keys: "fst ` set start_doc = {''@context'', ''@type''}"
  by (auto simp: start_doc_def)

lemma start_doc_distinct: "distinct (map fst start_doc)"
  by (simp add: start_doc_def)

lemma transform_Inr:
  "transform doc mappings = Inr out \<Longrightarrow>
   \<exists>d. transform_loop doc mappings start_doc = Inr d \<and> out = sort_key fst d"
  by (auto simp: transform_def split: sum.splits)

lemma transform_item_succeeds:
  "entry_succeeds mappings item \<Longrightarrow> \<exists>d'. transform_item mappings item d = Inr d'"
  by (auto simp: entry_succeeds_def transform_item_def isinstance_str_def
      split: option.splits mapped.splits pyval.splits sum.splits)

lemma transform_loop_succeeds:
  "list_all (entry_succeeds mappings) doc \<Longrightarrow> \<exists>d'. transform_loop doc mappings d = Inr d'"
proof (induction doc arbitrary: d)
  case Nil
  then show ?case by simp
next
  case (Cons item items)
  from Cons.prems have "entry_succeeds mappings item" by simp
  from transform_item_succeeds [OF this] obtain d1 where "transform_item mappings item d = Inr d1"
    by blast
  moreover from Cons.prems have "list_all (entry_succeeds mappings) items" by simp
  from Cons.IH [OF this] obtain d' where "transform_loop items mappings d1 = Inr d'" by blast
  ultimately show ?case by simp
qed

lemma transform_item_invalid:
  "mappings key = Some (Value x) \<Longrightarrow> \<not> isinstance_str x \<Longrightarrow>
   transform_item mappings (key, value) d = Inl RuntimeError"
  by (auto simp: transform_item_def isinstance_str_def split: pyval.splits)

lemma map_of_setitem: "map_of (setitem d k v) = (map_of d)(k \<mapsto> v)"
  by (induction d k v rule: setitem.induct) auto

lemma map_of_dict_update: "map_of (dict_update d other) = map_of d ++ map_of (rev other)"
proof (induction d other rule: dict_update.induct)
  case (1 d)
  then show ?case by simp
next
  case (2 d k v other)
  have "map_of (dict_update d ((k, v) # other)) = map_of (setitem d k v) ++ map_of (rev other)"
    using 2 by simp
  also have "\<dots> = (map_of d)(k \<mapsto> v) ++ map_of (rev other)"
    by (simp only: map_of_setitem)
  also have "\<dots> = map_of d ++ map_of (rev ((k, v) # other))"
    by (rule ext) (auto simp: map_add_def split: option.splits)
  finally show ?case .
qed

lemma transform_item_map:
  "transform_item mappings item d = Inr d' \<Longrightarrow>
   map_of d' = map_of d ++ map_of (rev (item_writes mappings item))"
  unfolding transform_item_def item_writes_def
  by (simp split: option.splits mapped.splits pyval.splits sum.splits)
     (metis map_of_setitem, metis map_of_dict_update)

lemma transform_loop_map:
  "transform_loop doc mappings d = Inr d' \<Longrightarrow>
   map_of d' = map_of d ++ map_of (rev (concat (map (item_writes mappings) doc)))"
proof (induction doc arbitrary: d)
  case Nil
  then show ?case by simp
next
  case (Cons item items)
  from Cons.prems obtain d1 where i: "transform_item mappings item d = Inr d1"
    and l: "transform_loop items mappings d1 = Inr d'"
    by (auto split: sum.splits)
  from Cons.IH [OF l] transform_item_map [OF i]
  have "map_of d' = (map_of d ++ map_of (rev (item_writes mappings item)))
                      ++ map_of (rev (concat (map (item_writes mappings) items)))"
    by simp
  then show ?case by simp
qed

lemma map_of_sort_key:
  assumes "distinct (map fst d)"
  shows "map_of (sort_key fst d) = map_of d"
proof -
  have "distinct (map fst (sort_key fst d))"
    using assms by (simp add: distinct_map inj_on_def)
  then show ?thesis
    using assms by (simp add: map_of_inject_set)
qed

lemma item_keys_writes: "item_keys mappings item = fst ` set (item_writes mappings item)"
  by (auto simp: item_keys_def item_writes_def
      split: option.splits mapped.splits pyval.splits sum.splits)

lemma transform_loop_renamed:
  "list_all (renames mappings) doc \<Longrightarrow> distinct (map fst (d @ renamed mappings doc)) \<Longrightarrow>
   transform_loop doc mappings d = Inr (d @ renamed mappings doc)"
proof (induction doc arbitrary: d)
  case Nil
  then show ?case by simp
next
  case (Cons item items)
  from Cons.prems(1) have r: "renames mappings item" and rs: "list_all (renames mappings) items"
    by simp_all
  show ?case
  proof (cases "mappings (fst item)")
    case None
    with Cons.prems(2) have "distinct (map fst (d @ renamed mappings items))" by simp
    from Cons.IH [OF rs this] None show ?thesis by (simp add: transform_item_def)
  next
    case (Some m)
    with r obtain name where m: "m = Value (PStr name)"
      by (auto simp: renames_def isinstance_str_def split: mapped.splits pyval.splits)
    from Some m have ren: "renamed mappings (item # items) = (name, snd item) # renamed mappings items"
      by simp
    from Cons.prems(2) ren have new: "name \<notin> fst ` set d"
      and dist: "distinct (map fst ((d @ [(name, snd item)]) @ renamed mappings items))"
      by auto
    from Some m have "transform_item mappings item d = Inr (d @ [(name, snd item)])"
      by (simp add: transform_item_def setitem_new [OF new])
    with Cons.IH [OF rs dist] ren show ?thesis by simp
  qed
qed

lemma length_renamed:
  "list_all (renames mappings) doc \<Longrightarrow>
   length (renamed mappings doc) = length (filter (\<lambda>item. mappings (fst item) \<noteq> None) doc)"
proof (induction doc)
  case Nil
  then show ?case by simp
next
  case (Cons item items)
  then show ?case
    by (cases "mappings (fst item)")
       (auto simp: renames_def isinstance_str_def split: mapped.splits pyval.splits)
qed

text \<open>
  C2.  An entry of the mapping table that is neither a string nor a callable, for a key
  of the record: the item raises \<^verbatim>\<open>RuntimeError\<close>, the exception of line 22
  for an invalid mapping table.  So when the items before it went through, the call
  fails with this exception at that key; and whatever the items before it do, the call
  fails.
\<close>

theorem invalid_entry_raises:
  assumes "mappings key = Some (Value x)" and "\<not> isinstance_str x"
  shows "transform_item mappings (key, value) d = Inl RuntimeError
     \<and> (\<forall>before rest d'. transform_loop before mappings start_doc = Inr d' \<longrightarrow>
           transform (before @ (key, value) # rest) mappings = Inl RuntimeError)
     \<and> (\<forall>doc. (key, value) \<in> set doc \<longrightarrow> (\<exists>e. transform doc mappings = Inl e))"
proof -
  have item: "transform_item mappings (key, value) d0 = Inl RuntimeError" for d0
    using assms by (rule transform_item_invalid)
  have b: "transform (before @ (key, value) # rest) mappings = Inl RuntimeError"
    if "transform_loop before mappings start_doc = Inr d'" for before rest d'
    using that by (simp add: transform_def transform_loop_append item)
  have c: "\<exists>e. transform doc mappings = Inl e" if "(key, value) \<in> set doc" for doc
  proof -
    from that obtain before rest where doc: "doc = before @ (key, value) # rest"
      by (auto dest: split_list)
    show ?thesis
    proof (cases "transform_loop before mappings start_doc")
      case (Inl e)
      then show ?thesis by (simp add: doc transform_def transform_loop_append)
    next
      case (Inr d')
      from b [OF this] show ?thesis unfolding doc by blast
    qed
  qed
  from item b c show ?thesis by blast
qed

theorem invalid_entry_raises_witness:
  "[''title'' \<mapsto> Value (PStr ''name''), ''id'' \<mapsto> Value (PInt 42)] ''id'' = Some (Value (PInt 42))
   \<and> \<not> isinstance_str (PInt 42)
   \<and> transform_loop [(''title'', PStr ''T'')]
         [''title'' \<mapsto> Value (PStr ''name''), ''id'' \<mapsto> Value (PInt 42)] start_doc
       = Inr (start_doc @ [(''name'', PStr ''T'')])
   \<and> (''id'', PStr ''x1'') \<in> set [(''title'', PStr ''T''), (''id'', PStr ''x1''), (''zz'', PNone)]
   \<and> transform [(''title'', PStr ''T''), (''id'', PStr ''x1''), (''zz'', PNone)]
         [''title'' \<mapsto> Value (PStr ''name''), ''id'' \<mapsto> Value (PInt 42)]
       = Inl RuntimeError"
proof -
  have h1: "[''title'' \<mapsto> Value (PStr ''name''), ''id'' \<mapsto> Value (PInt 42)] ''id''
              = Some (Value (PInt 42))"
    by simp
  have h2: "\<not> isinstance_str (PInt 42)"
    by (simp add: isinstance_str_def)
  have h3: "transform_loop [(''title'', PStr ''T'')]
         [''title'' \<mapsto> Value (PStr ''name''), ''id'' \<mapsto> Value (PInt 42)] start_doc
       = Inr (start_doc @ [(''name'', PStr ''T'')])"
    by (simp add: transform_item_def start_doc_def)
  have h4: "(''id'', PStr ''x1'') \<in> set [(''title'', PStr ''T''), (''id'', PStr ''x1''), (''zz'', PNone)]"
    by simp
  from invalid_entry_raises
    [of "[''title'' \<mapsto> Value (PStr ''name''), ''id'' \<mapsto> Value (PInt 42)]" "''id''" "PInt 42"
        "PStr ''x1''" start_doc] h1 h2 h3
  have "transform ([(''title'', PStr ''T'')] @ (''id'', PStr ''x1'') # [(''zz'', PNone)])
         [''title'' \<mapsto> Value (PStr ''name''), ''id'' \<mapsto> Value (PInt 42)]
       = Inl RuntimeError"
    by blast
  with h1 h2 h3 h4 show ?thesis by simp
qed

text \<open>
  C5, as stated: the output has \<^verbatim>\<open>@context\<close> and \<^verbatim>\<open>@type\<close> with their
  constant values and one more entry for each recognized key of the record.  A table
  that renames a key to \<^verbatim>\<open>@type\<close> refutes both parts: the one recognized key
  gives no third entry, and \<^verbatim>\<open>@type\<close> no longer has the value
  \<^verbatim>\<open>Dataset\<close>.
\<close>

theorem one_entry_per_key_counterexample:
  "transform [(''kind'', PStr ''Article'')] [''kind'' \<mapsto> Value (PStr ''@type'')]
     = Inr [(''@context'', PStr ''http://schema.org/''), (''@type'', PStr ''Article'')]
   \<and> map_of [(''@context'', PStr ''http://schema.org/''), (''@type'', PStr ''Article'')] ''@type''
       \<noteq> Some (PStr ''Dataset'')
   \<and> length (filter (\<lambda>item. [''kind'' \<mapsto> Value (PStr ''@type'')] (fst item) \<noteq> None)
               [(''kind'', PStr ''Article'')]) = 1
   \<and> length [(''@context'', PStr ''http://schema.org/''), (''@type'', PStr ''Article'')] \<noteq> 2 + 1"
  by (simp add: transform_def transform_item_def start_doc_def)

text \<open>
  C5, amended.  For the empty record the output is exactly the two constants.  For every
  record on which \<^verbatim>\<open>transform\<close> returns, the keys of the output are exactly
  \<^verbatim>\<open>@context\<close>, \<^verbatim>\<open>@type\<close> and the keys written for the recognized keys
  of the record (the name of a string entry, the keys of the dictionary that a callable
  entry returns), each key once; the keys of the record that the table does not have
  write nothing.  The value of a key is the one of the last store to it, in the order
  of the record and, inside the dictionary of a callable entry, in its order; a key
  that no item stores keeps the constant.  So a store to \<^verbatim>\<open>@context\<close> or
  \<^verbatim>\<open>@type\<close> replaces the constant, and of two items mapped to one name the
  later gives the value.  When the table maps the keys of the record to strings only,
  to pairwise different names other than \<^verbatim>\<open>@context\<close> and
  \<^verbatim>\<open>@type\<close>, the output consists of the two constants with their values and of
  one entry, name and source value, for each recognized key of the record.
\<close>

theorem output_keys:
  "transform [] mappings = Inr [(''@context'', PStr ''http://schema.org/''), (''@type'', PStr ''Dataset'')]
   \<and> (\<forall>out. transform doc mappings = Inr out \<longrightarrow>
        fst ` set out = {''@context'', ''@type''} \<union> (\<Union>item\<in>set doc. item_keys mappings item)
        \<and> distinct (map fst out)
        \<and> map_of out
            = map_of start_doc ++ map_of (rev (concat (map (item_writes mappings) doc))))
   \<and> (list_all (renames mappings) doc \<and> distinct (map fst (renamed mappings doc))
        \<and> ''@context'' \<notin> fst ` set (renamed mappings doc)
        \<and> ''@type'' \<notin> fst ` set (renamed mappings doc) \<longrightarrow>
        (\<exists>out. transform doc mappings = Inr out
           \<and> set out = set start_doc \<union> set (renamed mappings doc)
           \<and> length out = 2 + length (filter (\<lambda>item. mappings (fst item) \<noteq> None) doc)))
   \<and> transform [(''kind'', PStr ''Article''), (''genre'', PStr ''Review'')]
         [''kind'' \<mapsto> Value (PStr ''@type''), ''genre'' \<mapsto> Value (PStr ''@type'')]
       = Inr [(''@context'', PStr ''http://schema.org/''), (''@type'', PStr ''Review'')]"
proof -
  have a: "transform [] mappings
             = Inr [(''@context'', PStr ''http://schema.org/''), (''@type'', PStr ''Dataset'')]"
    by (simp add: transform_def start_doc_def)
  have b: "fst ` set out = {''@context'', ''@type''} \<union> (\<Union>item\<in>set doc. item_keys mappings item)
        \<and> distinct (map fst out)
        \<and> map_of out
            = map_of start_doc ++ map_of (rev (concat (map (item_writes mappings) doc)))"
    if "transform doc mappings = Inr out" for out
  proof -
    from transform_Inr [OF that] obtain d where l: "transform_loop doc mappings start_doc = Inr d"
      and out: "out = sort_key fst d" by blast
    have dd: "distinct (map fst d)"
      using transform_loop_distinct [OF l start_doc_distinct] .
    then have "distinct (map fst out)"
      unfolding out by (simp add: distinct_map inj_on_def)
    moreover have "fst ` set out = {''@context'', ''@type''} \<union> (\<Union>item\<in>set doc. item_keys mappings item)"
      unfolding out using transform_loop_keys [OF l] by (simp add: start_doc_keys)
    moreover have "map_of out
            = map_of start_doc ++ map_of (rev (concat (map (item_writes mappings) doc)))"
      unfolding out using transform_loop_map [OF l] by (simp add: map_of_sort_key [OF dd])
    ultimately show ?thesis by simp
  qed
  have c: "\<exists>out. transform doc mappings = Inr out
           \<and> set out = set start_doc \<union> set (renamed mappings doc)
           \<and> length out = 2 + length (filter (\<lambda>item. mappings (fst item) \<noteq> None) doc)"
    if r: "list_all (renames mappings) doc" and d: "distinct (map fst (renamed mappings doc))"
      and c1: "''@context'' \<notin> fst ` set (renamed mappings doc)"
      and c2: "''@type'' \<notin> fst ` set (renamed mappings doc)"
  proof -
    from d c1 c2 have "distinct (map fst (start_doc @ renamed mappings doc))"
      by (auto simp: start_doc_def)
    from transform_loop_renamed [OF r this]
    have "transform doc mappings = Inr (sort_key fst (start_doc @ renamed mappings doc))"
      by (simp add: transform_def)
    moreover have "length (sort_key fst (start_doc @ renamed mappings doc))
        = 2 + length (filter (\<lambda>item. mappings (fst item) \<noteq> None) doc)"
      by (simp add: length_renamed [OF r] start_doc_def)
    ultimately show ?thesis by simp
  qed
  have d: "transform [(''kind'', PStr ''Article''), (''genre'', PStr ''Review'')]
         [''kind'' \<mapsto> Value (PStr ''@type''), ''genre'' \<mapsto> Value (PStr ''@type'')]
       = Inr [(''@context'', PStr ''http://schema.org/''), (''@type'', PStr ''Review'')]"
    by code_simp
  from a b c d show ?thesis by blast
qed

theorem output_keys_witness:
  "transform [(''id'', PStr ''x1''), (''zz'', PInt 3), (''title'', PStr ''T'')]
      [''title'' \<mapsto> Value (PStr ''name''), ''id'' \<mapsto> Callable as_description]
     = Inr [(''@context'', PStr ''http://schema.org/''), (''@type'', PStr ''Dataset''),
            (''abstract'', PStr ''x1''), (''description'', PStr ''x1''), (''name'', PStr ''T'')]
   \<and> fst ` set [(''@context'', PStr ''http://schema.org/''), (''@type'', PStr ''Dataset''),
            (''abstract'', PStr ''x1''), (''description'', PStr ''x1''), (''name'', PStr ''T'')]
       = {''@context'', ''@type''}
         \<union> (\<Union>item\<in>set [(''id'', PStr ''x1''), (''zz'', PInt 3), (''title'', PStr ''T'')].
              item_keys [''title'' \<mapsto> Value (PStr ''name''), ''id'' \<mapsto> Callable as_description]
                item)
   \<and> transform [(''kind'', PStr ''Article''), (''genre'', PStr ''Review'')]
         [''kind'' \<mapsto> Value (PStr ''@type''), ''genre'' \<mapsto> Value (PStr ''@type'')]
       = Inr [(''@context'', PStr ''http://schema.org/''), (''@type'', PStr ''Review'')]
   \<and> concat (map (item_writes
           [''kind'' \<mapsto> Value (PStr ''@type''), ''genre'' \<mapsto> Value (PStr ''@type'')])
         [(''kind'', PStr ''Article''), (''genre'', PStr ''Review'')])
       = [(''@type'', PStr ''Article''), (''@type'', PStr ''Review'')]
   \<and> map_of [(''@context'', PStr ''http://schema.org/''), (''@type'', PStr ''Review'')]
       = map_of start_doc ++ map_of (rev [(''@type'', PStr ''Article''), (''@type'', PStr ''Review'')])
   \<and> list_all (renames [''title'' \<mapsto> Value (PStr ''name''), ''id'' \<mapsto> Value (PStr ''identifier'')])
         [(''id'', PStr ''x1''), (''zz'', PInt 3), (''title'', PStr ''T'')]
   \<and> renamed [''title'' \<mapsto> Value (PStr ''name''), ''id'' \<mapsto> Value (PStr ''identifier'')]
         [(''id'', PStr ''x1''), (''zz'', PInt 3), (''title'', PStr ''T'')]
       = [(''identifier'', PStr ''x1''), (''name'', PStr ''T'')]
   \<and> (\<exists>out. transform [(''id'', PStr ''x1''), (''zz'', PInt 3), (''title'', PStr ''T'')]
               [''title'' \<mapsto> Value (PStr ''name''), ''id'' \<mapsto> Value (PStr ''identifier'')]
             = Inr out
           \<and> set out = set start_doc \<union> set [(''identifier'', PStr ''x1''), (''name'', PStr ''T'')]
           \<and> length out = 2 + length [(''id'', PStr ''x1''), (''title'', PStr ''T'')])"
proof -
  let ?doc = "[(''id'', PStr ''x1''), (''zz'', PInt 3), (''title'', PStr ''T'')]"
  let ?m1 = "[''title'' \<mapsto> Value (PStr ''name''), ''id'' \<mapsto> Callable as_description]"
  let ?m2 = "[''title'' \<mapsto> Value (PStr ''name''), ''id'' \<mapsto> Value (PStr ''identifier'')]"
  have run: "transform ?doc ?m1
     = Inr [(''@context'', PStr ''http://schema.org/''), (''@type'', PStr ''Dataset''),
            (''abstract'', PStr ''x1''), (''description'', PStr ''x1''), (''name'', PStr ''T'')]"
    by code_simp
  note general = output_keys [of ?m1 ?doc, THEN conjunct2, THEN conjunct1, rule_format, OF run]
  note keys = general [THEN conjunct1]
  let ?doc3 = "[(''kind'', PStr ''Article''), (''genre'', PStr ''Review'')]"
  let ?m3 = "[''kind'' \<mapsto> Value (PStr ''@type''), ''genre'' \<mapsto> Value (PStr ''@type'')]"
  have run3: "transform ?doc3 ?m3
       = Inr [(''@context'', PStr ''http://schema.org/''), (''@type'', PStr ''Review'')]"
    by code_simp
  have writes3: "concat (map (item_writes ?m3) ?doc3)
       = [(''@type'', PStr ''Article''), (''@type'', PStr ''Review'')]"
    by (simp add: item_writes_def)
  note vals3 = output_keys [of ?m3 ?doc3, THEN conjunct2, THEN conjunct1, rule_format, OF run3,
      THEN conjunct2, THEN conjunct2, unfolded writes3]
  have r: "list_all (renames ?m2) ?doc"
    by (simp add: renames_def isinstance_str_def)
  have ren: "renamed ?m2 ?doc = [(''identifier'', PStr ''x1''), (''name'', PStr ''T'')]"
    by simp
  have flt: "filter (\<lambda>item. ?m2 (fst item) \<noteq> None) ?doc
               = [(''id'', PStr ''x1''), (''title'', PStr ''T'')]"
    by simp
  have pre: "list_all (renames ?m2) ?doc \<and> distinct (map fst (renamed ?m2 ?doc))
        \<and> ''@context'' \<notin> fst ` set (renamed ?m2 ?doc)
        \<and> ''@type'' \<notin> fst ` set (renamed ?m2 ?doc)"
    unfolding ren using r by simp
  note ex = output_keys [of ?m2 ?doc, THEN conjunct2, THEN conjunct2, THEN conjunct1,
      rule_format, OF pre, unfolded ren flt]
  from run keys run3 writes3 vals3 r ren ex show ?thesis
    by (intro conjI)
qed

text \<open>
  C8.  The keys of the mapping that \<^verbatim>\<open>transform\<close> returns are in ascending
  order, each key once; and it does return a mapping when no item of the record meets
  an entry that raises.
\<close>

theorem keys_sorted:
  "(\<forall>out. transform doc mappings = Inr out \<longrightarrow> sorted (map fst out) \<and> distinct (map fst out))
   \<and> (list_all (entry_succeeds mappings) doc \<longrightarrow>
        (\<exists>out. transform doc mappings = Inr out \<and> sorted (map fst out)))"
proof -
  have a: "sorted (map fst out) \<and> distinct (map fst out)"
    if "transform doc mappings = Inr out" for out
  proof -
    from transform_Inr [OF that] obtain d where l: "transform_loop doc mappings start_doc = Inr d"
      and out: "out = sort_key fst d" by blast
    have "distinct (map fst d)"
      using transform_loop_distinct [OF l start_doc_distinct] .
    then have "distinct (map fst out)"
      unfolding out by (simp add: distinct_map inj_on_def)
    moreover have "sorted (map fst out)"
      unfolding out by (rule sorted_sort_key)
    ultimately show ?thesis by simp
  qed
  have b: "\<exists>out. transform doc mappings = Inr out \<and> sorted (map fst out)"
    if "list_all (entry_succeeds mappings) doc"
  proof -
    from transform_loop_succeeds [OF that] obtain d
      where "transform_loop doc mappings start_doc = Inr d" by blast
    then have "transform doc mappings = Inr (sort_key fst d)"
      by (simp add: transform_def)
    with a show ?thesis by blast
  qed
  from a b show ?thesis by blast
qed

theorem keys_sorted_witness:
  "list_all (entry_succeeds [''title'' \<mapsto> Value (PStr ''name''), ''id'' \<mapsto> Callable as_description])
      [(''title'', PStr ''T''), (''zz'', PInt 3), (''id'', PStr ''x1'')]
   \<and> transform [(''title'', PStr ''T''), (''zz'', PInt 3), (''id'', PStr ''x1'')]
      [''title'' \<mapsto> Value (PStr ''name''), ''id'' \<mapsto> Callable as_description]
     = Inr [(''@context'', PStr ''http://schema.org/''), (''@type'', PStr ''Dataset''),
            (''abstract'', PStr ''x1''), (''description'', PStr ''x1''), (''name'', PStr ''T'')]
   \<and> sorted (map fst [(''@context'', PStr ''http://schema.org/''), (''@type'', PStr ''Dataset''),
            (''abstract'', PStr ''x1''), (''description'', PStr ''x1''), (''name'', PStr ''T'')])"
proof -
  let ?doc = "[(''title'', PStr ''T''), (''zz'', PInt 3), (''id'', PStr ''x1'')]"
  let ?m = "[''title'' \<mapsto> Value (PStr ''name''), ''id'' \<mapsto> Callable as_description]"
  have ok: "list_all (entry_succeeds ?m) ?doc"
    by (simp add: entry_succeeds_def isinstance_str_def as_description_def)
  have run: "transform ?doc ?m
     = Inr [(''@context'', PStr ''http://schema.org/''), (''@type'', PStr ''Dataset''),
            (''abstract'', PStr ''x1''), (''description'', PStr ''x1''), (''name'', PStr ''T'')]"
    by code_simp
  note srt = keys_sorted [of ?doc ?m, THEN conjunct1, rule_format, OF run, THEN conjunct1]
  from ok run srt show ?thesis
    by (intro conjI)
qed

section \<open>Properties of the XML extractor\<close>

lemma features_loop_prefix:
  "features_loop fs root citation = citation @ features_loop fs root []"
proof (induction fs arbitrary: citation)
  case Nil
  then show ?case by simp
next
  case (Cons f fs)
  obtain d ts b a where f: "f = ((d, ts), (b, a))"
    by (metis surj_pair)
  show ?case
  proof (cases "find_path d ts root")
    case None
    then show ?thesis using Cons.IH [of citation] by (simp add: f)
  next
    case (Some e)
    have "features_loop fs root (citation @ b @ format_text (text_of e) @ a)
            = citation @ b @ format_text (text_of e) @ a @ features_loop fs root []"
      using Cons.IH [of "citation @ b @ format_text (text_of e) @ a"] by simp
    moreover have "features_loop fs root ([] @ b @ format_text (text_of e) @ a)
            = (b @ format_text (text_of e) @ a) @ features_loop fs root []"
      using Cons.IH [of "b @ format_text (text_of e) @ a"] by simp
    ultimately show ?thesis using Some by (simp add: f)
  qed
qed

lemma authors_loop_Inr:
  "authors_loop as acc = Inr names \<Longrightarrow>
   \<exists>ns. names = acc @ ns \<and> list_all2 (\<lambda>a n. author_name a = Inr n) as ns"
proof (induction as arbitrary: acc)
  case Nil
  then show ?case by simp
next
  case (Cons a as)
  from Cons.prems obtain n where n: "author_name a = Inr n"
    and l: "authors_loop as (acc @ [n]) = Inr names"
    by (auto split: sum.splits)
  from Cons.IH [OF l] obtain ns where "names = (acc @ [n]) @ ns"
    and "list_all2 (\<lambda>a n. author_name a = Inr n) as ns" by blast
  with n show ?case by (intro exI [of _ "n # ns"]) simp
qed

lemma authors_loop_Inl: "authors_loop as acc = Inl e \<Longrightarrow> e = AttributeError"
proof (induction as arbitrary: acc)
  case Nil
  then show ?case by simp
next
  case (Cons a as)
  show ?case
  proof (cases "author_name a")
    case (Inl e')
    then have "e' = AttributeError"
      by (auto simp: author_name_def split: option.splits)
    with Cons.prems Inl show ?thesis by simp
  next
    case (Inr n)
    with Cons.prems have "authors_loop as (acc @ [n]) = Inl e" by simp
    from Cons.IH [OF this] show ?thesis .
  qed
qed

lemma author_string_cases:
  "author_string names =
     (if length names = 0 then []
      else if length names = 1 then names ! 0 @ ''. ''
      else if length names \<le> 4 then join '', '' names @ ''. ''
      else join '', '' (take 4 names) @ '' et al. '')"
proof -
  consider "length names = 0" | "length names = 1" | "1 < length names" "length names \<le> 4"
    | "4 < length names"
    by linarith
  then show ?thesis
    by cases (auto simp: author_string_def)
qed

lemma extract_root_Inr:
  assumes "extract_root root = Inr (grants, citation)"
  shows "children root \<noteq> []"
    and "grants = grants_loop (findall_desc ''Grant'' root) []"
    and "\<exists>names. authors_loop (findall_desc ''Author'' root) [] = Inr names
           \<and> citation = features_loop features root (author_string names)"
  using assms by (auto simp: extract_root_def Let_def split: if_splits sum.splits)

lemma grants_loop_map:
  "grants_loop gs acc = acc @ map (\<lambda>g. PDict (grant_dict g)) (filter (\<lambda>g. grant_dict g \<noteq> []) gs)"
  by (induction gs arbitrary: acc) auto

lemma grant_dict_empty:
  "grant_dict g \<noteq> [] \<longleftrightarrow> find ''Agency'' g \<noteq> None \<or> find ''GrantID'' g \<noteq> None"
  by (auto simp: grant_dict_def split: option.splits)

lemma grant_dict_keys:
  "map fst (grant_dict g) =
     (if find ''Agency'' g \<noteq> None then [''funder''] else [])
     @ (if find ''GrantID'' g \<noteq> None then [''identifier''] else [])"
  by (auto simp: grant_dict_def split: option.splits)

lemma grant_dict_funder:
  "find ''Agency'' g = Some a \<Longrightarrow>
   map_of (grant_dict g) ''funder''
     = Some (PDict [(''@type'', PStr ''Organization''), (''name'', text_value (text_of a))])"
  by (simp add: grant_dict_def)

lemma grant_dict_identifier:
  "find ''GrantID'' g = Some i \<Longrightarrow>
   map_of (grant_dict g) ''identifier'' = Some (text_value (text_of i))"
  by (auto simp: grant_dict_def split: option.splits)

lemma pmid_with_eutils_received:
  "environ ''API_KEY'' = Some api_key \<Longrightarrow> http_get (eutils_url pmid api_key) = Inr body \<Longrightarrow>
   pmid_with_eutils environ http_get fromstring pmid =
     (case fromstring body of None \<Rightarrow> Inl ParseError | Some root \<Rightarrow> extract_root root)"
  by (simp add: pmid_with_eutils_def)

lemma extract_root_errors:
  "extract_root root = Inl e \<Longrightarrow>
   (children root = [] \<and> e = AssertionError) \<or> (children root \<noteq> [] \<and> e = AttributeError)"
  by (auto simp: extract_root_def Let_def split: if_splits sum.splits dest: authors_loop_Inl)

lemma select_grants_none:
  "list_all (\<lambda>s. \<not> contains ''Grant support'' (markup s)) sections \<Longrightarrow>
   select_grants sections grants = grants"
  by (induction sections arbitrary: grants) auto

lemma no_grant_heading:
  "list_all (\<lambda>s. \<not> contains ''Grant support'' (markup s)) sections \<Longrightarrow>
   funding_of_sections sections = Inr []"
  by (simp add: funding_of_sections_def select_grants_none init_state_def)

text \<open>
  C3.  Two of the three parts hold: without a heading that contains the words
  \<^verbatim>\<open>Grant support\<close> the grant list stays empty and the result is the empty
  list (\<open>no_grant_heading\<close>), and a \<^verbatim>\<open>Grant\<close> element without an
  \<^verbatim>\<open>Agency\<close> or a \<^verbatim>\<open>GrantID\<close> child only lacks the key
  (\<open>grant_dict_keys\<close>).  The third does not: lines 152 and 153 read the text of
  the result of \<^verbatim>\<open>find\<close> without the test for \<^verbatim>\<open>None\<close> that lines 133,
  139 and 183 make, so an \<^verbatim>\<open>Author\<close> element without a
  \<^verbatim>\<open>LastName\<close> child (an author given by a collective name), or without an
  \<^verbatim>\<open>Initials\<close> child, makes the whole call fail with
  \<^verbatim>\<open>AttributeError\<close>.
\<close>

theorem author_without_lastname:
  "pmid_with_eutils environ_with_key (respond_with ''<PubmedArticleSet>...</PubmedArticleSet>'')
      (parse_as (article_doc
         [Element ''Author'' None [Element ''CollectiveName'' (Some ''The Study Group'') []]] []))
      ''20109744''
     = Inl AttributeError
   \<and> pmid_with_eutils environ_with_key (respond_with ''<PubmedArticleSet>...</PubmedArticleSet>'')
      (parse_as (article_doc [Element ''Author'' None [Element ''LastName'' (Some ''Doe'') []]] []))
      ''20109744''
     = Inl AttributeError"
  by code_simp

text \<open>
  C4, as stated: a document that is empty fails with \<^verbatim>\<open>ParseError\<close> and with
  no other kind of error.  A well-formed body whose root element has no child elements
  is parsed, and then \<^verbatim>\<open>assert root\<close> fails: the error is
  \<^verbatim>\<open>AssertionError\<close>, which is not the \<^verbatim>\<open>ParseError\<close> of the parser.
\<close>

theorem empty_root_counterexample:
  "pmid_with_eutils environ_with_key (respond_with ''<PubmedArticleSet></PubmedArticleSet>'')
      (parse_as (Element ''PubmedArticleSet'' None [])) ''20109744''
     = Inl AssertionError
   \<and> AssertionError \<noteq> ParseError"
  by code_simp

text \<open>
  C4, amended.  For a response body that the function has received: when the parser
  rejects the body (it is not well-formed, which includes the empty body and a body
  without a root element) the call fails with \<^verbatim>\<open>ParseError\<close>; when the body
  is parsed and the root element has no child elements, the call fails with
  \<^verbatim>\<open>AssertionError\<close>; when the root element has a child element, the call
  fails with neither of the two.
\<close>

theorem parse_failures:
  assumes "environ ''API_KEY'' = Some api_key" and "http_get (eutils_url pmid api_key) = Inr body"
  shows "(fromstring body = None \<longrightarrow>
            pmid_with_eutils environ http_get fromstring pmid = Inl ParseError)
     \<and> (\<forall>root. fromstring body = Some root \<and> children root = [] \<longrightarrow>
            pmid_with_eutils environ http_get fromstring pmid = Inl AssertionError)
     \<and> (\<forall>root. fromstring body = Some root \<and> children root \<noteq> [] \<longrightarrow>
            pmid_with_eutils environ http_get fromstring pmid \<noteq> Inl ParseError
            \<and> pmid_with_eutils environ http_get fromstring pmid \<noteq> Inl AssertionError)"
proof -
  have r: "pmid_with_eutils environ http_get fromstring pmid =
     (case fromstring body of None \<Rightarrow> Inl ParseError | Some root \<Rightarrow> extract_root root)"
    using assms by (rule pmid_with_eutils_received)
  have a: "fromstring body = None \<longrightarrow>
            pmid_with_eutils environ http_get fromstring pmid = Inl ParseError"
    by (simp add: r)
  have b: "pmid_with_eutils environ http_get fromstring pmid = Inl AssertionError"
    if "fromstring body = Some root \<and> children root = []" for root
    using that by (simp add: r extract_root_def)
  have c: "pmid_with_eutils environ http_get fromstring pmid \<noteq> Inl ParseError
            \<and> pmid_with_eutils environ http_get fromstring pmid \<noteq> Inl AssertionError"
    if "fromstring body = Some root \<and> children root \<noteq> []" for root
  proof -
    from that have e: "pmid_with_eutils environ http_get fromstring pmid = extract_root root"
      by (simp add: r)
    show ?thesis
      unfolding e using that extract_root_errors [of root] by auto
  qed
  from a b c show ?thesis by blast
qed

theorem parse_failures_witness:
  "environ_with_key ''API_KEY'' = Some ''0123456789abcdef''
   \<and> respond_with ''<PubmedArticleSet>'' (eutils_url ''20109744'' ''0123456789abcdef'')
       = Inr ''<PubmedArticleSet>''
   \<and> parse_fails ''<PubmedArticleSet>'' = None
   \<and> pmid_with_eutils environ_with_key (respond_with ''<PubmedArticleSet>'') parse_fails ''20109744''
       = Inl ParseError
   \<and> parse_as (Element ''PubmedArticleSet'' None []) ''<PubmedArticleSet>''
       = Some (Element ''PubmedArticleSet'' None [])
   \<and> children (Element ''PubmedArticleSet'' None []) = []
   \<and> pmid_with_eutils environ_with_key (respond_with ''<PubmedArticleSet>'')
         (parse_as (Element ''PubmedArticleSet'' None [])) ''20109744''
       = Inl AssertionError
   \<and> parse_as (article_doc [] []) ''<PubmedArticleSet>'' = Some (article_doc [] [])
   \<and> children (article_doc [] []) \<noteq> []
   \<and> pmid_with_eutils environ_with_key (respond_with ''<PubmedArticleSet>'')
         (parse_as (article_doc [] [])) ''20109744''
       \<noteq> Inl ParseError"
proof -
  have h1: "environ_with_key ''API_KEY'' = Some ''0123456789abcdef''"
    by (simp add: environ_with_key_def)
  have h2: "respond_with ''<PubmedArticleSet>'' (eutils_url ''20109744'' ''0123456789abcdef'')
       = Inr ''<PubmedArticleSet>''"
    by (simp add: respond_with_def)
  have p1: "parse_fails ''<PubmedArticleSet>'' = None"
    by (simp add: parse_fails_def)
  have p2: "parse_as (Element ''PubmedArticleSet'' None []) ''<PubmedArticleSet>''
       = Some (Element ''PubmedArticleSet'' None [])"
    by (simp add: parse_as_def)
  have p3: "parse_as (article_doc [] []) ''<PubmedArticleSet>'' = Some (article_doc [] [])"
    by (simp add: parse_as_def)
  have c2: "children (Element ''PubmedArticleSet'' None []) = []"
    by simp
  have c3: "children (article_doc [] []) \<noteq> []"
    by (simp add: article_doc_def)
  note a = parse_failures [where environ = environ_with_key and api_key = "''0123456789abcdef''"
      and http_get = "respond_with ''<PubmedArticleSet>''" and pmid = "''20109744''"
      and body = "''<PubmedArticleSet>''" and fromstring = parse_fails, OF h1 h2,
      THEN conjunct1, rule_format, OF p1]
  note b = parse_failures [where environ = environ_with_key and api_key = "''0123456789abcdef''"
      and http_get = "respond_with ''<PubmedArticleSet>''" and pmid = "''20109744''"
      and body = "''<PubmedArticleSet>''" and fromstring = "parse_as (Element ''PubmedArticleSet'' None [])",
      OF h1 h2, THEN conjunct2, THEN conjunct1, rule_format, OF conjI [OF p2 c2]]
  note c = parse_failures [where environ = environ_with_key and api_key = "''0123456789abcdef''"
      and http_get = "respond_with ''<PubmedArticleSet>''" and pmid = "''20109744''"
      and body = "''<PubmedArticleSet>''" and fromstring = "parse_as (article_doc [] [])",
      OF h1 h2, THEN conjunct2, THEN conjunct2, rule_format, OF conjI [OF p3 c3], THEN conjunct1]
  from h1 h2 p1 a p2 c2 b p3 c3 c show ?thesis
    by (intro conjI)
qed

text \<open>
  C6.  The author string, by the number of names: empty for none, the name and
  \<^verbatim>\<open>". "\<close> for one, all names joined by \<^verbatim>\<open>", "\<close> and then
  \<^verbatim>\<open>". "\<close> for two to four, the first four joined and then
  \<^verbatim>\<open>" et al. "\<close> for more.  When the extractor returns, its citation starts
  with the author string of the names of the \<^verbatim>\<open>Author\<close> elements in document
  order, and each name is the text of \<^verbatim>\<open>LastName\<close>, a space and the text of
  \<^verbatim>\<open>Initials\<close>.
\<close>

theorem author_segment:
  "author_string names =
     (if length names = 0 then []
      else if length names = 1 then names ! 0 @ ''. ''
      else if length names \<le> 4 then join '', '' names @ ''. ''
      else join '', '' (take 4 names) @ '' et al. '')
   \<and> (\<forall>grants citation. extract_root root = Inr (grants, citation) \<longrightarrow>
        (\<exists>authors. list_all2 (\<lambda>a n. author_name a = Inr n) (findall_desc ''Author'' root) authors
           \<and> citation = author_string authors @ features_loop features root []))
   \<and> (\<forall>a n. author_name a = Inr n \<longrightarrow>
        (\<exists>l i. find ''LastName'' a = Some l \<and> find ''Initials'' a = Some i
           \<and> n = format_text (text_of l) @ '' '' @ format_text (text_of i)))"
proof -
  have b: "\<exists>authors. list_all2 (\<lambda>a n. author_name a = Inr n) (findall_desc ''Author'' root) authors
           \<and> citation = author_string authors @ features_loop features root []"
    if "extract_root root = Inr (grants, citation)" for grants citation
  proof -
    from extract_root_Inr(3) [OF that] obtain names
      where l: "authors_loop (findall_desc ''Author'' root) [] = Inr names"
        and c: "citation = features_loop features root (author_string names)" by blast
    from authors_loop_Inr [OF l]
    have "list_all2 (\<lambda>a n. author_name a = Inr n) (findall_desc ''Author'' root) names" by simp
    moreover from c have "citation = author_string names @ features_loop features root []"
      using features_loop_prefix [of features root "author_string names"] by simp
    ultimately show ?thesis by blast
  qed
  have c: "\<exists>l i. find ''LastName'' a = Some l \<and> find ''Initials'' a = Some i
           \<and> n = format_text (text_of l) @ '' '' @ format_text (text_of i)"
    if "author_name a = Inr n" for a n
    using that by (auto simp: author_name_def split: option.splits)
  from author_string_cases [of names] b c show ?thesis
    by blast
qed

theorem author_segment_witness:
  "extract_root (article_doc [author_elem ''Doe'' ''J''] []) = Inr ([], ''Doe J. A trial. '')
   \<and> author_name (author_elem ''Doe'' ''J'') = Inr ''Doe J''
   \<and> (\<exists>authors. list_all2 (\<lambda>a n. author_name a = Inr n)
          (findall_desc ''Author'' (article_doc [author_elem ''Doe'' ''J''] [])) authors
        \<and> ''Doe J. A trial. ''
            = author_string authors
              @ features_loop features (article_doc [author_elem ''Doe'' ''J''] []) [])
   \<and> author_string [] = []
   \<and> author_string [''Doe J''] = ''Doe J. ''
   \<and> author_string [''A X'', ''B Y'', ''C Z''] = ''A X, B Y, C Z. ''
   \<and> author_string [''A X'', ''B Y'', ''C Z'', ''D W'', ''E V'', ''F U''] = ''A X, B Y, C Z, D W et al. ''
   \<and> extract_root (article_doc
         [author_elem ''A'' ''X'', author_elem ''B'' ''Y'', author_elem ''C'' ''Z'',
          author_elem ''D'' ''W'', author_elem ''E'' ''V'', author_elem ''F'' ''U''] [])
       = Inr ([], ''A X, B Y, C Z, D W et al. A trial. '')"
proof -
  have run: "extract_root (article_doc [author_elem ''Doe'' ''J''] []) = Inr ([], ''Doe J. A trial. '')"
    by code_simp
  have name: "author_name (author_elem ''Doe'' ''J'') = Inr ''Doe J''"
    by code_simp
  note t = author_segment [of _ "article_doc [author_elem ''Doe'' ''J''] []"]
  note ex = t [of "[]", THEN conjunct2, THEN conjunct1, rule_format, OF run]
  have s0: "author_string [] = []"
    using author_segment [of "[]", THEN conjunct1] by simp
  have s1: "author_string [''Doe J''] = ''Doe J. ''"
    using author_segment [of "[''Doe J'']", THEN conjunct1] by simp
  have s3: "author_string [''A X'', ''B Y'', ''C Z''] = ''A X, B Y, C Z. ''"
    using author_segment [of "[''A X'', ''B Y'', ''C Z'']", THEN conjunct1] by simp
  have s6: "author_string [''A X'', ''B Y'', ''C Z'', ''D W'', ''E V'', ''F U'']
              = ''A X, B Y, C Z, D W et al. ''"
    using author_segment [of "[''A X'', ''B Y'', ''C Z'', ''D W'', ''E V'', ''F U'']", THEN conjunct1]
    by simp
  have run6: "extract_root (article_doc
         [author_elem ''A'' ''X'', author_elem ''B'' ''Y'', author_elem ''C'' ''Z'',
          author_elem ''D'' ''W'', author_elem ''E'' ''V'', author_elem ''F'' ''U''] [])
       = Inr ([], ''A X, B Y, C Z, D W et al. A trial. '')"
    by code_simp
  from run name ex s0 s1 s3 s6 run6 show ?thesis
    by (intro conjI)
qed

text \<open>
  C7.  The grant list is one entry for each \<^verbatim>\<open>Grant\<close> element below the root,
  in document order, the elements with neither an \<^verbatim>\<open>Agency\<close> nor a
  \<^verbatim>\<open>GrantID\<close> child left out.  The entry has the key \<^verbatim>\<open>funder\<close> when
  there is an \<^verbatim>\<open>Agency\<close> child, with the text of the first one as the name of
  the organization, and the key \<^verbatim>\<open>identifier\<close> when there is a
  \<^verbatim>\<open>GrantID\<close> child, with the text of the first one; no other key.  This list
  is the first component of what the extractor returns.
\<close>

theorem grant_entries:
  "grants_loop (findall_desc ''Grant'' root) []
      = map (\<lambda>g. PDict (grant_dict g))
          (filter (\<lambda>g. find ''Agency'' g \<noteq> None \<or> find ''GrantID'' g \<noteq> None)
             (findall_desc ''Grant'' root))
   \<and> (\<forall>grants citation. extract_root root = Inr (grants, citation) \<longrightarrow>
         grants = grants_loop (findall_desc ''Grant'' root) [])
   \<and> (\<forall>g. map fst (grant_dict g) =
           (if find ''Agency'' g \<noteq> None then [''funder''] else [])
           @ (if find ''GrantID'' g \<noteq> None then [''identifier''] else []))
   \<and> (\<forall>g a. find ''Agency'' g = Some a \<longrightarrow>
         map_of (grant_dict g) ''funder''
           = Some (PDict [(''@type'', PStr ''Organization''), (''name'', text_value (text_of a))]))
   \<and> (\<forall>g i. find ''GrantID'' g = Some i \<longrightarrow>
         map_of (grant_dict g) ''identifier'' = Some (text_value (text_of i)))"
proof -
  have a: "grants_loop (findall_desc ''Grant'' root) []
      = map (\<lambda>g. PDict (grant_dict g))
          (filter (\<lambda>g. find ''Agency'' g \<noteq> None \<or> find ''GrantID'' g \<noteq> None)
             (findall_desc ''Grant'' root))"
    by (simp add: grants_loop_map grant_dict_empty)
  have b: "\<forall>grants citation. extract_root root = Inr (grants, citation) \<longrightarrow>
         grants = grants_loop (findall_desc ''Grant'' root) []"
    using extract_root_Inr(2) by blast
  have c: "\<forall>g. map fst (grant_dict g) =
           (if find ''Agency'' g \<noteq> None then [''funder''] else [])
           @ (if find ''GrantID'' g \<noteq> None then [''identifier''] else [])"
    using grant_dict_keys by blast
  have d: "\<forall>g a. find ''Agency'' g = Some a \<longrightarrow>
         map_of (grant_dict g) ''funder''
           = Some (PDict [(''@type'', PStr ''Organization''), (''name'', text_value (text_of a))])"
    using grant_dict_funder by blast
  have e: "\<forall>g i. find ''GrantID'' g = Some i \<longrightarrow>
         map_of (grant_dict g) ''identifier'' = Some (text_value (text_of i))"
    using grant_dict_identifier by blast
  from a b c d e show ?thesis
    by (intro conjI)
qed

theorem grant_entries_witness:
  "pmid_with_eutils environ_with_key (respond_with ''<PubmedArticleSet>...</PubmedArticleSet>'')
      (parse_as (article_doc [] [Element ''Grant'' None [Element ''Agency'' (Some ''NIH'') []]]))
      ''20109744''
     = Inr ([PDict [(''funder'', PDict [(''@type'', PStr ''Organization''), (''name'', PStr ''NIH'')])]],
            ''A trial. '')
   \<and> extract_root (article_doc [] [Element ''Grant'' None [Element ''Agency'' (Some ''NIH'') []]])
     = Inr ([PDict [(''funder'', PDict [(''@type'', PStr ''Organization''), (''name'', PStr ''NIH'')])]],
            ''A trial. '')
   \<and> [PDict [(''funder'', PDict [(''@type'', PStr ''Organization''), (''name'', PStr ''NIH'')])]]
     = grants_loop
         (findall_desc ''Grant''
            (article_doc [] [Element ''Grant'' None [Element ''Agency'' (Some ''NIH'') []]])) []
   \<and> find ''Agency'' (Element ''Grant'' None [Element ''Agency'' (Some ''NIH'') []])
     = Some (Element ''Agency'' (Some ''NIH'') [])
   \<and> find ''GrantID'' (Element ''Grant'' None [Element ''Agency'' (Some ''NIH'') []]) = None
   \<and> map fst (grant_dict (Element ''Grant'' None [Element ''Agency'' (Some ''NIH'') []])) = [''funder'']"
proof -
  let ?g = "Element ''Grant'' None [Element ''Agency'' (Some ''NIH'') []]"
  have run: "pmid_with_eutils environ_with_key (respond_with ''<PubmedArticleSet>...</PubmedArticleSet>'')
      (parse_as (article_doc [] [?g])) ''20109744''
     = Inr ([PDict [(''funder'', PDict [(''@type'', PStr ''Organization''), (''name'', PStr ''NIH'')])]],
            ''A trial. '')"
    by code_simp
  have ex: "extract_root (article_doc [] [?g])
     = Inr ([PDict [(''funder'', PDict [(''@type'', PStr ''Organization''), (''name'', PStr ''NIH'')])]],
            ''A trial. '')"
    by code_simp
  note t = grant_entries [of "article_doc [] [?g]"]
  note loop = t [THEN conjunct2, THEN conjunct1, rule_format, OF ex]
  have f1: "find ''Agency'' ?g = Some (Element ''Agency'' (Some ''NIH'') [])"
    by code_simp
  have f2: "find ''GrantID'' ?g = None"
    by code_simp
  have k: "map fst (grant_dict ?g) = [''funder'']"
    using t [THEN conjunct2, THEN conjunct2, THEN conjunct1, rule_format, of ?g]
    by (simp add: f1 f2)
  from run ex loop f1 f2 k show ?thesis
    by (intro conjI)
qed

end
